(* ===== verification/Prelude.thy ===== *)
theory Prelude
  imports Main "HOL-Library.Word" "HOL-Library.Sublist"
begin

text \<open>
  Shared ground of the pdns-logger development: the status codes and abnormal outcomes of the
  C program, its build switch for \<^verbatim>\<open>assert\<close>, the sequencing of calls that may stop the
  process, and the list lemmas the component theories rely on.

  A C string is the list of its characters before the terminating NUL; a \<^verbatim>\<open>char *\<close> that may
  be NULL is a \<open>string option\<close>.
\<close>

section \<open>Lemma collections of the development\<close>

named_theorems res_simps "equations of the outcome monad"
named_theorems cstr_simps "equations of the C string functions"

section \<open>Types\<close>

type_synonym u8 = "8 word"
type_synonym u16 = "16 word"
type_synonym u32 = "32 word"
type_synonym u64 = "64 word"
type_synonym cstring = "string option"

datatype pdns_status = PDNS_NO | PDNS_OK | PDNS_FORK | PDNS_RETRY

text \<open>
  Everything that can end the execution of a function other than by returning: a failed
  \<^verbatim>\<open>assert\<close>, a write past the end of an array, a read past the end of an object, a read of
  uninitialised memory, a use of something already freed, a dereferenced NULL pointer, a wait
  that does not end (a lock another thread holds, a call that never returns), and a join of a
  thread that does not exist.
\<close>

datatype stop =
    Assert_Failed
  | Buffer_Overflow
  | Oob_Read
  | Uninit_Read
  | Use_After_Free
  | Null_Deref
  | Would_Block
  | Bad_Join

type_synonym 'a res = "stop + 'a"

section \<open>Sequencing of calls that may stop\<close>

definition rbind :: "'a res \<Rightarrow> ('a \<Rightarrow> 'b res) \<Rightarrow> 'b res" where
  "rbind m f = (case m of Inl e \<Rightarrow> Inl e | Inr x \<Rightarrow> f x)"

lemma rbind_simps [simp, res_simps]:
  "rbind (Inr x) f = f x"
  "rbind (Inl e) f = Inl e"
  by (simp_all add: rbind_def)

lemma rbind_Inr_iff [simp]: "rbind m f = Inr y \<longleftrightarrow> (\<exists>x. m = Inr x \<and> f x = Inr y)"
  by (cases m) auto

lemma rbind_assoc: "rbind (rbind m f) g = rbind m (\<lambda>x. rbind (f x) g)"
  by (cases m) auto

lemma rbind_Inr_right [simp]: "rbind m Inr = m"
  by (cases m) auto

text \<open>
  \<^verbatim>\<open>assert(0)\<close>: the build defines \<^verbatim>\<open>NDEBUG\<close> (then it is nothing) or it does not (then the
  process aborts). The flag is a parameter of every function that asserts.
\<close>

definition assert0 :: "bool \<Rightarrow> 'a \<Rightarrow> 'a res" where
  "assert0 ndebug x = (if ndebug then Inr x else Inl Assert_Failed)"

lemma assert0_simps [simp, res_simps]:
  "assert0 True x = Inr x"
  "assert0 False x = Inl Assert_Failed"
  by (simp_all add: assert0_def)

lemma assert0_Inr_iff: "assert0 nd x = Inr y \<longleftrightarrow> nd \<and> x = y"
  by (cases nd) auto

text \<open>Running a stateful action over a list, stopping at the first abnormal outcome.\<close>

fun rfold :: "('x \<Rightarrow> 's \<Rightarrow> 's res) \<Rightarrow> 'x list \<Rightarrow> 's \<Rightarrow> 's res" where
  "rfold f [] s = Inr s"
| "rfold f (x # xs) s = rbind (f x s) (rfold f xs)"

lemma rfold_append: "rfold f (xs @ ys) s = rbind (rfold f xs s) (rfold f ys)"
proof (induction xs arbitrary: s)
  case Nil
  show ?case by simp
next
  case (Cons x xs)
  have "rfold f (xs @ ys) = (\<lambda>u. rbind (rfold f xs u) (rfold f ys))"
    by (rule ext) (rule Cons.IH)
  then show ?case by (simp add: rbind_assoc)
qed

text \<open>The same equations for a fold that stands as an action, without its state.\<close>

lemma rfold_action [simp]:
  "rfold f [] = Inr"
  "rfold f (x # xs) = (\<lambda>s. rbind (f x s) (rfold f xs))"
  by (simp_all add: fun_eq_iff)

lemma rfold_append_action: "rfold f (xs @ ys) = (\<lambda>s. rbind (rfold f xs s) (rfold f ys))"
  by (rule ext) (rule rfold_append)

lemma rfold_total:
  "(\<And>x s. x \<in> set xs \<Longrightarrow> f x s = Inr (g x s)) \<Longrightarrow> rfold f xs s = Inr (fold g xs s)"
  by (induction xs arbitrary: s) auto

lemma rfold_invariant:
  assumes "rfold f xs s = Inr t" and "P s"
    and "\<And>x u v. x \<in> set xs \<Longrightarrow> P u \<Longrightarrow> f x u = Inr v \<Longrightarrow> P v"
  shows "P t"
  using assms by (induction xs arbitrary: s) auto

section \<open>Lists\<close>

lemma takeWhile_all: "(\<And>x. x \<in> set xs \<Longrightarrow> P x) \<Longrightarrow> takeWhile P xs = xs"
  by (induction xs) auto

lemma dropWhile_all: "(\<And>x. x \<in> set xs \<Longrightarrow> P x) \<Longrightarrow> dropWhile P xs = []"
  by (induction xs) auto

lemma dropWhile_hd: "xs \<noteq> [] \<Longrightarrow> \<not> P (hd xs) \<Longrightarrow> dropWhile P xs = xs"
  by (cases xs) auto

lemma take_append_take_drop: "m \<le> n \<Longrightarrow> take m xs @ take (n - m) (drop m xs) = take n xs"
  by (metis le_add_diff_inverse take_add)

lemma append_eq_split:
  "xs @ ys = zs @ ts \<Longrightarrow> length xs \<le> length zs \<Longrightarrow> \<exists>us. zs = xs @ us \<and> ys = us @ ts"
  by (auto simp: append_eq_append_conv2)

lemma map_Some_exists:
  assumes "\<And>z. z \<in> set zs \<Longrightarrow> \<exists>m. f z = Some m \<and> P m"
  shows "\<exists>ms. map f zs = map Some ms \<and> list_all P ms"
proof -
  have "map f zs = map Some (map (\<lambda>z. the (f z)) zs)" using assms by force
  moreover have "list_all P (map (\<lambda>z. the (f z)) zs)" using assms by (force simp: list_all_iff)
  ultimately show ?thesis by blast
qed

end
