(* ===== verification/C_Library.thy ===== *)
theory C_Library
  imports Prelude
begin

text \<open>
  The C library as the sources use it: character classes, \<^verbatim>\<open>strncmp\<close> against a literal,
  \<^verbatim>\<open>atoi\<close>, the conversions of \<^verbatim>\<open>printf\<close>, \<^verbatim>\<open>inet_ntop\<close>, and
  the pair \<^verbatim>\<open>snprintf\<close>/\<^verbatim>\<open>strncat\<close> with the bookkeeping both text backends wrap around it.
  Behaviour is that of glibc on a 64-bit platform.
\<close>

section \<open>C strings\<close>

text \<open>The macro \<^verbatim>\<open>zstr\<close>: a NULL or empty string.\<close>

definition zstr :: "cstring \<Rightarrow> bool" where
  "zstr x = (case x of None \<Rightarrow> True | Some s \<Rightarrow> s = [])"

lemma zstr_simps [simp, cstr_simps]: "zstr None" "zstr (Some s) \<longleftrightarrow> s = []"
  by (simp_all add: zstr_def)

lemma not_zstr: "\<not> zstr x \<longleftrightarrow> (\<exists>c s. x = Some (c # s))"
  by (cases x) (auto simp: neq_Nil_conv)

text \<open>\<^verbatim>\<open>isspace\<close> and \<^verbatim>\<open>isdigit\<close> in the C locale.\<close>

definition isspace :: "char \<Rightarrow> bool" where
  "isspace c = (let n = (of_char c :: nat) in n = 32 \<or> (9 \<le> n \<and> n \<le> 13))"

definition isdigit :: "char \<Rightarrow> bool" where
  "isdigit c = (let n = (of_char c :: nat) in 48 \<le> n \<and> n \<le> 57)"

text \<open>\<^verbatim>\<open>!strncmp(a, b, n)\<close>: the first \<open>n\<close> characters, terminators included, agree.\<close>

fun strncmp_eq :: "nat \<Rightarrow> string \<Rightarrow> string \<Rightarrow> bool" where
  "strncmp_eq 0 a b = True"
| "strncmp_eq (Suc n) [] [] = True"
| "strncmp_eq (Suc n) (a # as) (b # bs) = (a = b \<and> strncmp_eq n as bs)"
| "strncmp_eq (Suc n) [] (b # bs) = False"
| "strncmp_eq (Suc n) (a # as) [] = False"

text \<open>
  \<^verbatim>\<open>!strncmp(a, "lit", sizeof("lit"))\<close>: the size of a literal counts its NUL, so this is
  string equality and not a prefix test.
\<close>

definition str_eq_lit :: "string \<Rightarrow> string \<Rightarrow> bool" where
  "str_eq_lit a lit = strncmp_eq (length lit + 1) a lit"

lemma strncmp_eq_full: "length b < n \<Longrightarrow> strncmp_eq n a b \<longleftrightarrow> a = b"
  by (induction n a b rule: strncmp_eq.induct) auto

lemma str_eq_lit_iff [simp, cstr_simps]: "str_eq_lit a lit \<longleftrightarrow> a = lit"
  by (simp add: str_eq_lit_def strncmp_eq_full)

section \<open>Numbers and text\<close>

text \<open>Decimal and hexadecimal digits, as \<^verbatim>\<open>printf\<close> writes them.\<close>

fun dec :: "nat \<Rightarrow> string" where
  "dec n = (if n < 10 then [char_of (48 + n)] else dec (n div 10) @ [char_of (48 + n mod 10)])"

declare dec.simps [simp del]

definition show_int :: "int \<Rightarrow> string" where
  "show_int i = (if i < 0 then CHR ''-'' # dec (nat (- i)) else dec (nat i))"

definition hex_digit :: "nat \<Rightarrow> char" where
  "hex_digit n = char_of (if n < 10 then 48 + n else 87 + n)"

fun hex :: "nat \<Rightarrow> string" where
  "hex n = (if n < 16 then [hex_digit n] else hex (n div 16) @ [hex_digit (n mod 16)])"

declare hex.simps [simp del]

text \<open>
  \<^verbatim>\<open>atoi\<close> as \<^verbatim>\<open>(int) strtol(s, NULL, 10)\<close>: leading blanks, an optional sign, digits; the long
  saturates and the conversion to a 32-bit int keeps its low bits.
\<close>

fun digits_val :: "nat \<Rightarrow> string \<Rightarrow> nat" where
  "digits_val acc [] = acc"
| "digits_val acc (c # cs) = (if isdigit c then digits_val (10 * acc + (of_char c - 48)) cs else acc)"

definition strtol10 :: "string \<Rightarrow> int" where
  "strtol10 s =
     (let t = dropWhile isspace s;
          v = (case t of
                 [] \<Rightarrow> 0
               | c # cs \<Rightarrow> if c = CHR ''-'' then - int (digits_val 0 cs)
                           else if c = CHR ''+'' then int (digits_val 0 cs)
                           else int (digits_val 0 t))
      in max (- (2 ^ 63)) (min (2 ^ 63 - 1) v))"

definition atoi :: "string \<Rightarrow> int" where
  "atoi s = signed_take_bit 31 (strtol10 s)"

lemma char_of_digits [simp]:
  "char_of (48 :: nat) = CHR ''0''" "char_of (49 :: nat) = CHR ''1''" "char_of (50 :: nat) = CHR ''2''"
  "char_of (51 :: nat) = CHR ''3''" "char_of (52 :: nat) = CHR ''4''" "char_of (53 :: nat) = CHR ''5''"
  "char_of (54 :: nat) = CHR ''6''" "char_of (55 :: nat) = CHR ''7''" "char_of (56 :: nat) = CHR ''8''"
  "char_of (57 :: nat) = CHR ''9''" "char_of (97 :: nat) = CHR ''a''" "char_of (98 :: nat) = CHR ''b''"
  "char_of (99 :: nat) = CHR ''c''" "char_of (100 :: nat) = CHR ''d''" "char_of (101 :: nat) = CHR ''e''"
  "char_of (102 :: nat) = CHR ''f''"
  by code_simp+

lemma of_char_digit: "n < 10 \<Longrightarrow> of_char (char_of (48 + n) :: char) = (48 + n :: nat)"
  by simp

lemma isdigit_digit: "n < 10 \<Longrightarrow> isdigit (char_of (48 + n :: nat))"
  by (simp add: isdigit_def Let_def)

lemma dec_digits: "c \<in> set (dec n) \<Longrightarrow> isdigit c"
proof (induction n rule: dec.induct)
  case (1 n)
  show ?case
  proof (cases "n < 10")
    case True
    with "1.prems" show ?thesis by (auto simp: dec.simps [of n] isdigit_digit)
  next
    case False
    with 1 show ?thesis by (auto simp: dec.simps [of n] isdigit_digit)
  qed
qed

lemma dec_not_Nil [simp]: "dec n \<noteq> []"
  by (simp add: dec.simps [of n])

lemma isdigit_not_space: "isdigit c \<Longrightarrow> \<not> isspace c"
  by (auto simp: isdigit_def isspace_def Let_def)

lemma isdigit_not_sign: "isdigit c \<Longrightarrow> c \<noteq> CHR ''-'' \<and> c \<noteq> CHR ''+''"
  by (auto simp: isdigit_def Let_def)

lemma digits_val_append:
  "(\<And>c. c \<in> set xs \<Longrightarrow> isdigit c) \<Longrightarrow> digits_val acc (xs @ ys) = digits_val (digits_val acc xs) ys"
  by (induction xs arbitrary: acc) auto

lemma digits_val_dec: "digits_val 0 (dec n) = n"
proof (induction n rule: dec.induct)
  case (1 n)
  show ?case
  proof (cases "n < 10")
    case True
    then show ?thesis by (simp add: dec.simps [of n] isdigit_digit)
  next
    case False
    then have "digits_val 0 (dec n) = 10 * (n div 10) + n mod 10"
      using 1 by (simp add: dec.simps [of n] digits_val_append dec_digits isdigit_digit)
    then show ?thesis by simp
  qed
qed

lemma dropWhile_isspace_dec [simp]: "dropWhile isspace (dec n) = dec n"
  by (rule dropWhile_hd) (auto intro!: isdigit_not_space dec_digits [OF hd_in_set])

text \<open>What \<^verbatim>\<open>%d\<close> writes, \<^verbatim>\<open>atoi\<close> reads back, for every value of a 32-bit int.\<close>

lemma strtol10_show_int:
  assumes "- (2 ^ 63) \<le> i" "i < 2 ^ 63"
  shows "strtol10 (show_int i) = i"
proof (cases "i < 0")
  case True
  moreover have "\<not> isspace (CHR ''-'')" by (simp add: isspace_def)
  ultimately show ?thesis
    using assms by (simp add: strtol10_def show_int_def digits_val_dec)
next
  case False
  obtain c cs where c: "dec (nat i) = c # cs" by (cases "dec (nat i)") auto
  then have "isdigit c" using dec_digits [of c "nat i"] by simp
  then have "c \<noteq> CHR ''-''" "c \<noteq> CHR ''+''" "\<not> isspace c"
    using isdigit_not_sign isdigit_not_space by auto
  then have "strtol10 (show_int i) = max (- (2 ^ 63)) (min (2 ^ 63 - 1) (int (digits_val 0 (dec (nat i)))))"
    using False c by (simp add: strtol10_def show_int_def Let_def)
  then show ?thesis using False assms by (simp add: digits_val_dec)
qed

lemma atoi_show_int:
  assumes "- (2 ^ 31) \<le> i" "i < 2 ^ 31"
  shows "atoi (show_int i) = i"
proof -
  have "strtol10 (show_int i) = i"
    using assms by (intro strtol10_show_int) auto
  then show ?thesis
    using assms by (simp add: atoi_def signed_take_bit_int_eq_self)
qed

lemma atoi_range: "- (2 ^ 31) \<le> atoi s \<and> atoi s < 2 ^ 31"
  using signed_take_bit_int_greater_eq_minus_exp [of 31 "strtol10 s"]
    signed_take_bit_int_less_exp [of 31 "strtol10 s"] by (simp add: atoi_def)

lemma length_dec_le: "n < 10 ^ k \<Longrightarrow> 0 < k \<Longrightarrow> length (dec n) \<le> k"
proof (induction n arbitrary: k rule: dec.induct)
  case (1 n)
  show ?case
  proof (cases "n < 10")
    case True
    with "1.prems" show ?thesis by (simp add: dec.simps [of n])
  next
    case False
    have "k \<noteq> 1" using False "1.prems" by (intro notI) simp
    with "1.prems" obtain m where m: "k = Suc m" "0 < m"
      by (cases k) auto
    with "1.prems" have "n div 10 < 10 ^ m" by (simp add: less_mult_imp_div_less mult.commute)
    with "1.IH" False m have "length (dec (n div 10)) \<le> m" by simp
    with False m show ?thesis by (simp add: dec.simps [of n])
  qed
qed

lemma length_hex_le: "n < 16 ^ k \<Longrightarrow> 0 < k \<Longrightarrow> length (hex n) \<le> k"
proof (induction n arbitrary: k rule: hex.induct)
  case (1 n)
  show ?case
  proof (cases "n < 16")
    case True
    with "1.prems" show ?thesis by (simp add: hex.simps [of n])
  next
    case False
    have "k \<noteq> 1" using False "1.prems" by (intro notI) simp
    with "1.prems" obtain m where m: "k = Suc m" "0 < m"
      by (cases k) auto
    with "1.prems" have "n div 16 < 16 ^ m" by (simp add: less_mult_imp_div_less mult.commute)
    with "1.IH" False m have "length (hex (n div 16)) \<le> m" by simp
    with False m show ?thesis by (simp add: hex.simps [of n])
  qed
qed

section \<open>\<^verbatim>\<open>printf\<close> conversions\<close>

text \<open>
  \<^verbatim>\<open>%s\<close> prints \<^verbatim>\<open>(null)\<close> for a NULL pointer; \<^verbatim>\<open>%d\<close> reads the bits of an unsigned argument as
  a signed int.
\<close>

definition fmt_s :: "cstring \<Rightarrow> string" where
  "fmt_s x = (case x of None \<Rightarrow> ''(null)'' | Some s \<Rightarrow> s)"

definition fmt_d :: "u32 \<Rightarrow> string" where
  "fmt_d w = show_int (sint w)"

lemma fmt_s_simps [simp, cstr_simps]: "fmt_s None = ''(null)''" "fmt_s (Some s) = s"
  by (simp_all add: fmt_s_def)

lemma length_show_int: "- (2 ^ 31) \<le> i \<Longrightarrow> i < 2 ^ 31 \<Longrightarrow> length (show_int i) \<le> 11"
proof -
  assume "- (2 ^ 31) \<le> i" "i < 2 ^ 31"
  then have "nat (- i) < 10 ^ 10" "nat i < 10 ^ 10" by auto
  then have "length (dec (nat (- i))) \<le> 10" "length (dec (nat i)) \<le> 10"
    by (auto intro: length_dec_le)
  then show ?thesis by (auto simp: show_int_def)
qed

lemma length_fmt_d: "length (fmt_d w) \<le> 11"
  using sint_ge [of w] sint_lt [of w] unfolding fmt_d_def by (intro length_show_int) auto

section \<open>\<^verbatim>\<open>snprintf\<close> and \<^verbatim>\<open>strncat\<close>\<close>

text \<open>
  \<^verbatim>\<open>snprintf(buf, n, \<dots>)\<close> leaves the first \<open>n - 1\<close> characters of the text and returns the
  length of the whole text. \<^verbatim>\<open>strncat(dest, src, n)\<close> appends at most \<open>n\<close> characters and a NUL,
  whatever the size of \<^verbatim>\<open>dest\<close>; an int passed as \<open>n\<close> becomes a \<^verbatim>\<open>size_t\<close> first.
\<close>

definition snprintf :: "nat \<Rightarrow> string \<Rightarrow> string \<times> int" where
  "snprintf n txt = (take (n - 1) txt, int (length txt))"

definition size_t_of_int :: "int \<Rightarrow> nat" where
  "size_t_of_int i = nat (i mod 2 ^ 64)"

definition strncat :: "nat \<Rightarrow> string \<Rightarrow> string \<Rightarrow> nat \<Rightarrow> string res" where
  "strncat cap dest src n =
     (let r = dest @ take n src in if cap < length r + 1 then Inl Buffer_Overflow else Inr r)"

lemma size_t_of_int_nonneg: "0 \<le> i \<Longrightarrow> i < 2 ^ 64 \<Longrightarrow> size_t_of_int i = nat i"
  by (simp add: size_t_of_int_def)

lemma size_t_of_int_neg:
  assumes "i < 0" "- (2 ^ 63) \<le> i"
  shows "2 ^ 63 \<le> size_t_of_int i"
proof -
  have "i mod 2 ^ 64 = i + 2 ^ 64"
    using assms mod_pos_pos_trivial [of "i + 2 ^ 64" "2 ^ 64"] by simp
  then show ?thesis using assms by (simp add: size_t_of_int_def)
qed

section \<open>\<^verbatim>\<open>inet_ntop\<close>\<close>

fun join :: "string \<Rightarrow> string list \<Rightarrow> string" where
  "join sep [] = []"
| "join sep [x] = x"
| "join sep (x # y # ys) = x @ sep @ join sep (y # ys)"

definition inet_ntop4 :: "u8 list \<Rightarrow> string" where
  "inet_ntop4 src = join ''.'' (map (\<lambda>b. dec (unat b)) src)"

text \<open>
  The IPv6 printer splits the address into eight 16-bit words, finds the first longest run of
  at least two zero words, prints it as \<^verbatim>\<open>::\<close>, and prints the last four bytes in dotted form
  for IPv4-compatible and IPv4-mapped addresses. A run is its base and its length.
\<close>

fun words16 :: "u8 list \<Rightarrow> nat list" where
  "words16 (hi # lo # bs) = (256 * unat hi + unat lo) # words16 bs"
| "words16 bs = []"

definition better_run :: "(nat \<times> nat) option \<Rightarrow> (nat \<times> nat) option \<Rightarrow> (nat \<times> nat) option" where
  "better_run best cur =
     (case cur of
        None \<Rightarrow> best
      | Some (b, l) \<Rightarrow> (case best of None \<Rightarrow> cur | Some (b', l') \<Rightarrow> if l' < l then cur else best))"

fun scan_runs ::
  "nat \<Rightarrow> (nat \<times> nat) option \<Rightarrow> (nat \<times> nat) option \<Rightarrow> nat list \<Rightarrow> (nat \<times> nat) option" where
  "scan_runs i cur best [] = better_run best cur"
| "scan_runs i cur best (w # ws) =
     (if w = 0
      then scan_runs (Suc i) (case cur of None \<Rightarrow> Some (i, 1) | Some (b, l) \<Rightarrow> Some (b, Suc l)) best ws
      else scan_runs (Suc i) None (better_run best cur) ws)"

definition best_zero_run :: "nat list \<Rightarrow> (nat \<times> nat) option" where
  "best_zero_run ws =
     (case scan_runs 0 None None ws of
        Some (b, l) \<Rightarrow> if l < 2 then None else Some (b, l)
      | None \<Rightarrow> None)"

definition in_run :: "(nat \<times> nat) option \<Rightarrow> nat \<Rightarrow> bool" where
  "in_run run i = (case run of None \<Rightarrow> False | Some (b, l) \<Rightarrow> b \<le> i \<and> i < b + l)"

definition embeds_ipv4 :: "(nat \<times> nat) option \<Rightarrow> nat list \<Rightarrow> bool" where
  "embeds_ipv4 run ws =
     (case run of
        None \<Rightarrow> False
      | Some (b, l) \<Rightarrow> b = 0 \<and> (l = 6 \<or> l = 5 \<and> ws ! 5 = 65535))"

fun ntop6_words :: "(nat \<times> nat) option \<Rightarrow> bool \<Rightarrow> string \<Rightarrow> nat \<Rightarrow> nat list \<Rightarrow> string" where
  "ntop6_words run v4 tail i [] = (case run of None \<Rightarrow> [] | Some (b, l) \<Rightarrow> if b + l = 8 then '':'' else [])"
| "ntop6_words run v4 tail i (w # ws) =
     (if in_run run i
      then (if run \<noteq> None \<and> fst (the run) = i then '':'' else []) @ ntop6_words run v4 tail (Suc i) ws
      else (if i \<noteq> 0 then '':'' else []) @
           (if i = 6 \<and> v4 then tail else hex w @ ntop6_words run v4 tail (Suc i) ws))"

definition inet_ntop6 :: "u8 list \<Rightarrow> string" where
  "inet_ntop6 src =
     (let ws = words16 src; run = best_zero_run ws
      in ntop6_words run (embeds_ipv4 run ws) (inet_ntop4 (drop 12 src)) 0 ws)"

lemmas inet_ntop_defs =
  inet_ntop4_def inet_ntop6_def best_zero_run_def better_run_def in_run_def embeds_ipv4_def
  hex_digit_def Let_def

lemma inet_ntop_examples:
  "inet_ntop4 [127, 0, 0, 1] = ''127.0.0.1''"
  "inet_ntop6 [0x20, 0x01, 0x0d, 0xb8, 0, 0, 0, 0, 0, 0, 0, 0, 0, 0, 0, 1] = ''2001:db8::1''"
  "inet_ntop6 [0, 0, 0, 0, 0, 0, 0, 0, 0, 0, 0, 0, 0, 0, 0, 0] = ''::''"
  "inet_ntop6 [0, 0, 0, 0, 0, 0, 0, 0, 0, 0, 255, 255, 192, 0, 2, 1] = ''::ffff:192.0.2.1''"
  by (simp_all add: inet_ntop_defs dec.simps hex.simps)

lemma length_join: "length (join sep xs) = sum_list (map length xs) + (length xs - 1) * length sep"
  by (induction sep xs rule: join.induct) auto

lemma length_inet_ntop4_le: "length (inet_ntop4 src) \<le> 3 * length src + (length src - 1)"
proof -
  have "length (dec (unat b)) \<le> 3" for b :: u8
    using unsigned_less [where ?'a = nat, of b] by (intro length_dec_le) auto
  then have "sum_list (map (length \<circ> (\<lambda>b. dec (unat b))) src) \<le> 3 * length src"
    by (induction src) (auto intro: add_mono [of _ 3, simplified])
  then show ?thesis by (simp add: inet_ntop4_def length_join)
qed

lemma words16_bounded: "w \<in> set (words16 bs) \<Longrightarrow> w < 65536"
proof (induction bs rule: words16.induct)
  case (1 hi lo bs)
  have "256 * unat hi + unat lo < 65536"
    using unsigned_less [where ?'a = nat, of hi] unsigned_less [where ?'a = nat, of lo] by simp
  with 1 show ?case by auto
qed auto

lemma length_words16: "length (words16 bs) = length bs div 2"
  by (induction bs rule: words16.induct) auto

text \<open>No printed address is longer than \<^verbatim>\<open>INET6_ADDRSTRLEN - 1\<close>, so the callers' buffers suffice.\<close>

lemma length_ntop6_words:
  assumes "\<And>w. w \<in> set ws \<Longrightarrow> w < 65536" "length tail \<le> 15"
  shows "length (ntop6_words run v4 tail i ws) \<le> 5 * length ws + (if v4 \<and> i \<le> 6 then 11 else 0) + 1"
  using assms(1)
proof (induction ws arbitrary: i)
  case Nil
  show ?case by (simp split: option.splits)
next
  case (Cons w ws)
  have "length (hex w) \<le> 4" using Cons.prems by (intro length_hex_le) auto
  with Cons.IH [of "Suc i"] Cons.prems assms(2) show ?case
    by (auto split: if_splits)
qed

lemma length_ntop6_ipv4:
  assumes "length ws = 8" "\<And>w. w \<in> set ws \<Longrightarrow> w < 65536" "length tail \<le> 15" "embeds_ipv4 run ws"
  shows "length (ntop6_words run True tail 0 ws) \<le> 22"
proof -
  obtain w0 w1 w2 w3 w4 w5 w6 w7 where ws: "ws = [w0, w1, w2, w3, w4, w5, w6, w7]"
  proof -
    have "length ws = Suc (Suc (Suc (Suc (Suc (Suc (Suc (Suc 0)))))))" using assms(1) by simp
    then show ?thesis using that by (auto simp only: length_Suc_conv length_0_conv)
  qed
  have "length (hex w5) \<le> 4" using assms(2) ws by (intro length_hex_le) auto
  then have "length (ntop6_words (Some (0, 6)) True tail 0 ws) \<le> 22"
    "length (ntop6_words (Some (0, 5)) True tail 0 ws) \<le> 22"
    using assms(3) by (simp_all add: ws in_run_def)
  moreover have "run = Some (0, 6) \<or> run = Some (0, 5)"
    using assms(4) by (auto simp: embeds_ipv4_def split: option.splits)
  ultimately show ?thesis by auto
qed

lemma length_inet_ntop6_le:
  assumes "length src = 16"
  shows "length (inet_ntop6 src) \<le> 45"
proof -
  have tail: "length (inet_ntop4 (drop 12 src)) \<le> 15"
    using length_inet_ntop4_le [of "drop 12 src"] assms by simp
  have ws: "length (words16 src) = 8" using assms by (simp add: length_words16)
  show ?thesis
  proof (cases "embeds_ipv4 (best_zero_run (words16 src)) (words16 src)")
    case True
    then have "length (ntop6_words (best_zero_run (words16 src)) True (inet_ntop4 (drop 12 src)) 0 (words16 src)) \<le> 22"
      by (intro length_ntop6_ipv4 ws tail) (rule words16_bounded)
    with True show ?thesis by (simp add: inet_ntop6_def Let_def)
  next
    case False
    have "length (ntop6_words (best_zero_run (words16 src)) False (inet_ntop4 (drop 12 src)) 0 (words16 src))
      \<le> 5 * length (words16 src) + (if False \<and> (0 :: nat) \<le> 6 then 11 else 0) + 1"
      by (rule length_ntop6_words) (use tail words16_bounded in auto)
    with False ws show ?thesis by (simp add: inet_ntop6_def Let_def)
  qed
qed

end
