(* ===== verification/Pb_Message.thy ===== *)
theory Pb_Message
  imports C_Library
begin

text \<open>
  The message the PowerDNS recursor sends, as the structures of \<^verbatim>\<open>src/dnsmessage.pb-c.h\<close>, and their
  initial values. Optional scalars keep their separate \<^verbatim>\<open>has_\<close> flag; a \<^verbatim>\<open>char *\<close> field is NULL or a
  string; a repeated field (a count and a pointer array) is a list. Unpacking the wire format
  is the work of libprotobuf-c and stays a parameter of the development.
\<close>

section \<open>Structures\<close>

text \<open>Enumerated fields hold a C int: zero before a value is set, else a value of the enumeration.\<close>

type_synonym pb_enum = nat

text \<open>\<^verbatim>\<open>ProtobufCBinaryData\<close>: a length and a pointer to that many bytes, with no terminator.\<close>

record binary_data =
  bd_len :: nat
  bd_data :: "u8 list option"

record dnsquestion =
  q_qname :: cstring
  q_has_qtype :: bool
  q_qtype :: u32
  q_has_qclass :: bool
  q_qclass :: u32

record dnsrr =
  rr_name :: cstring
  rr_has_type :: bool
  rr_type :: u32
  rr_has_class :: bool
  rr_class :: u32
  rr_has_ttl :: bool
  rr_ttl :: u32
  rr_has_rdata :: bool
  rr_rdata :: binary_data

record dnsresponse =
  r_has_rcode :: bool
  r_rcode :: u32
  r_rrs :: "dnsrr list"
  r_appliedpolicy :: cstring
  r_tags :: "string list"
  r_has_querytimesec :: bool
  r_querytimesec :: u32
  r_has_querytimeusec :: bool
  r_querytimeusec :: u32

record pbdnsmessage =
  m_type :: pb_enum
  m_has_messageid :: bool
  m_messageid :: binary_data
  m_has_serveridentity :: bool
  m_serveridentity :: binary_data
  m_has_socketfamily :: bool
  m_socketfamily :: pb_enum
  m_has_socketprotocol :: bool
  m_socketprotocol :: pb_enum
  m_has_from :: bool
  m_from :: binary_data
  m_has_to :: bool
  m_to :: binary_data
  m_has_inbytes :: bool
  m_inbytes :: u64
  m_has_timesec :: bool
  m_timesec :: u32
  m_has_timeusec :: bool
  m_timeusec :: u32
  m_has_id :: bool
  m_id :: u32
  m_question :: "dnsquestion option"
  m_response :: "dnsresponse option"
  m_has_originalrequestorsubnet :: bool
  m_originalrequestorsubnet :: binary_data
  m_requestorid :: cstring
  m_has_initialrequestid :: bool
  m_initialrequestid :: binary_data

section \<open>Initial values\<close>

definition binary_data_null :: binary_data where
  "binary_data_null = \<lparr>bd_len = 0, bd_data = None\<rparr>"

definition pbdnsmessage__dnsquestion__init :: dnsquestion where
  "pbdnsmessage__dnsquestion__init =
     \<lparr>q_qname = None, q_has_qtype = False, q_qtype = 0, q_has_qclass = False, q_qclass = 0\<rparr>"

definition pbdnsmessage__dnsresponse__dnsrr__init :: dnsrr where
  "pbdnsmessage__dnsresponse__dnsrr__init =
     \<lparr>rr_name = None, rr_has_type = False, rr_type = 0, rr_has_class = False, rr_class = 0,
      rr_has_ttl = False, rr_ttl = 0, rr_has_rdata = False, rr_rdata = binary_data_null\<rparr>"

definition pbdnsmessage__dnsresponse__init :: dnsresponse where
  "pbdnsmessage__dnsresponse__init =
     \<lparr>r_has_rcode = False, r_rcode = 0, r_rrs = [], r_appliedpolicy = None, r_tags = [],
      r_has_querytimesec = False, r_querytimesec = 0,
      r_has_querytimeusec = False, r_querytimeusec = 0\<rparr>"

definition pbdnsmessage__init :: pbdnsmessage where
  "pbdnsmessage__init =
     \<lparr>m_type = 0, m_has_messageid = False, m_messageid = binary_data_null,
      m_has_serveridentity = False, m_serveridentity = binary_data_null,
      m_has_socketfamily = False, m_socketfamily = 0, m_has_socketprotocol = False, m_socketprotocol = 0,
      m_has_from = False, m_from = binary_data_null, m_has_to = False, m_to = binary_data_null,
      m_has_inbytes = False, m_inbytes = 0, m_has_timesec = False, m_timesec = 0,
      m_has_timeusec = False, m_timeusec = 0, m_has_id = False, m_id = 0,
      m_question = None, m_response = None,
      m_has_originalrequestorsubnet = False, m_originalrequestorsubnet = binary_data_null,
      m_requestorid = None, m_has_initialrequestid = False, m_initialrequestid = binary_data_null\<rparr>"

lemmas pb_init_defs =
  binary_data_null_def pbdnsmessage__dnsquestion__init_def pbdnsmessage__dnsresponse__dnsrr__init_def
  pbdnsmessage__dnsresponse__init_def pbdnsmessage__init_def

section \<open>Well-formed binary data\<close>

text \<open>What libprotobuf-c builds: the pointer is NULL exactly for an empty field.\<close>

definition bdata_wf :: "binary_data \<Rightarrow> bool" where
  "bdata_wf b = (case bd_data b of None \<Rightarrow> bd_len b = 0 | Some bs \<Rightarrow> length bs = bd_len b \<and> bs \<noteq> [])"

definition rr_wf :: "dnsrr \<Rightarrow> bool" where
  "rr_wf rr = bdata_wf (rr_rdata rr)"

definition msg_wf :: "pbdnsmessage \<Rightarrow> bool" where
  "msg_wf m =
     (bdata_wf (m_from m) \<and>
      (case m_response m of None \<Rightarrow> True | Some r \<Rightarrow> list_all rr_wf (r_rrs r)))"

text \<open>The bytes behind the pointer; \<open>[]\<close> for NULL.\<close>

definition bd_bytes :: "binary_data \<Rightarrow> u8 list" where
  "bd_bytes b = (case bd_data b of None \<Rightarrow> [] | Some bs \<Rightarrow> bs)"

definition char_of_byte :: "u8 \<Rightarrow> char" where
  "char_of_byte b = char_of (unat b)"

text \<open>
  Reading binary data with \<^verbatim>\<open>%s\<close>: \<^verbatim>\<open>(null)\<close> for NULL, otherwise the bytes before the first NUL; when
  there is none the read runs past the end of the object.
\<close>

definition bd_as_cstring :: "binary_data \<Rightarrow> cstring res" where
  "bd_as_cstring b =
     (case bd_data b of
        None \<Rightarrow> Inr None
      | Some bs \<Rightarrow>
          if 0 \<in> set bs then Inr (Some (map char_of_byte (takeWhile (\<lambda>x. x \<noteq> 0) bs)))
          else Inl Oob_Read)"

text \<open>Reading a fixed number of bytes, as \<^verbatim>\<open>inet_ntop\<close> does.\<close>

definition bd_read :: "nat \<Rightarrow> binary_data \<Rightarrow> u8 list res" where
  "bd_read n b =
     (case bd_data b of
        None \<Rightarrow> Inl Null_Deref
      | Some bs \<Rightarrow> if length bs < n then Inl Oob_Read else Inr (take n bs))"

lemma bd_read_wf: "bdata_wf b \<Longrightarrow> bd_len b = n \<Longrightarrow> 0 < n \<Longrightarrow> bd_read n b = Inr (bd_bytes b)"
  by (auto simp: bdata_wf_def bd_read_def bd_bytes_def split: option.splits)

end
