(* ===== verification/Dns_Names.thy ===== *)
theory Dns_Names
  imports C_Library
begin

text \<open>
  The DNS mnemonics of \<^verbatim>\<open>src/pdns-logger-dns.h\<close> and \<^verbatim>\<open>src/pdns-logger-dns.c\<close>: the enumerations
  that give every class, type and response code its number, the tables of printable names, and
  the three lookups the backends call. The lookups index a table by position; the header's
  numbering is the specification they are compared with.
\<close>

section \<open>The enumerations of the header\<close>

text \<open>Each enumeration as the list of its values and enumerators (without the common prefix).\<close>

definition dns_class_e :: "(nat \<times> string) list" where
  "dns_class_e = [
     (0, ''INVALID''), (1, ''IN''), (3, ''CH''), (4, ''HS''), (255, ''ANY'')]"

definition dns_type_e :: "(nat \<times> string) list" where
  "dns_type_e = [
     (0, ''INVALID''), (1, ''A''), (2, ''NS''), (3, ''MD''), (4, ''MF''), (5, ''CNAME''),
     (6, ''SOA''), (7, ''MB''), (8, ''MG''), (9, ''MR''), (10, ''NULL''), (11, ''WKS''),
     (12, ''PTR''), (13, ''HINFO''), (14, ''MINFO''), (15, ''MX''), (16, ''TXT''), (17, ''RP''),
     (18, ''AFSDB''), (19, ''X25''), (20, ''ISDN''), (21, ''RT''), (22, ''NSAP''),
     (23, ''NSAP_PTR''), (24, ''SIG''), (25, ''KEY''), (26, ''PX''), (27, ''GPOS''),
     (28, ''AAAA''), (29, ''LOC''), (30, ''NXT''), (31, ''EID''), (32, ''NIMLOC''),
     (33, ''SRV''), (34, ''ATMA''), (35, ''NAPTR''), (36, ''KX''), (37, ''CERT''), (38, ''A6''),
     (39, ''DNAME''), (40, ''SINK''), (41, ''OPT''), (250, ''TSIG''), (251, ''IXFR''),
     (252, ''AXFR''), (253, ''MAILB''), (254, ''MAILA''), (255, ''ANY''), (256, ''ZXFR''),
     (65536, ''MAX'')]"

definition dns_rcode_e :: "(nat \<times> string) list" where
  "dns_rcode_e = [
     (0, ''NOERROR''), (1, ''FORMERR''), (2, ''SERVFAIL''), (3, ''NXDOMAIN''), (4, ''NOTIMPL''),
     (5, ''REFUSED''), (6, ''YXDOMAIN''), (7, ''YXRRSET''), (8, ''NXRRSET''), (9, ''NOTAUTH''),
     (10, ''NOTZONE''), (16, ''BADSIG''), (17, ''BADKEY''), (18, ''BADTIME'')]"

section \<open>The name tables\<close>

record dns_nameval =
  nv_val :: nat
  nv_name :: cstring

abbreviation nameval :: "nat \<Rightarrow> string \<Rightarrow> dns_nameval" where
  "nameval v n \<equiv> \<lparr>nv_val = v, nv_name = Some n\<rparr>"

definition dns_classtab :: "dns_nameval list" where
  "dns_classtab = [
     nameval 0 ''INVALID'', nameval 1 ''IN'', nameval 3 ''CH'', nameval 4 ''HS'',
     nameval 255 ''ANY'', \<lparr>nv_val = 0, nv_name = None\<rparr>]"

definition dns_typetab :: "dns_nameval list" where
  "dns_typetab = [
     nameval 0 ''INVALID'', nameval 1 ''A'', nameval 2 ''NS'', nameval 3 ''MD'',
     nameval 4 ''MF'', nameval 5 ''CNAME'', nameval 6 ''SOA'', nameval 7 ''MB'',
     nameval 8 ''MG'', nameval 9 ''MR'', nameval 10 ''NULL'', nameval 11 ''WKS'',
     nameval 12 ''PTR'', nameval 13 ''HINFO'', nameval 14 ''MINFO'', nameval 15 ''MX'',
     nameval 16 ''TXT'', nameval 17 ''RP'', nameval 18 ''AFSDB'', nameval 19 ''X25'',
     nameval 20 ''ISDN'', nameval 21 ''RT'', nameval 22 ''NSAP'', nameval 23 ''NSAP_PTR'',
     nameval 24 ''SIG'', nameval 25 ''KEY'', nameval 26 ''PX'', nameval 27 ''GPOS'',
     nameval 28 ''AAAA'', nameval 29 ''LOC'', nameval 30 ''NXT'', nameval 31 ''EID'',
     nameval 32 ''NIMLOC'', nameval 33 ''SRV'', nameval 34 ''ATMA'', nameval 35 ''NAPTR'',
     nameval 36 ''KX'', nameval 37 ''CERT'', nameval 38 ''A6'', nameval 39 ''DNAME'',
     nameval 40 ''SINK'', nameval 41 ''OPT'', nameval 250 ''TSIG'', nameval 251 ''IXFR'',
     nameval 252 ''AXFR'', nameval 253 ''MAILB'', nameval 254 ''MAILA'', nameval 255 ''ANY'',
     nameval 256 ''ZXFR'', nameval 65536 ''MAX'', \<lparr>nv_val = 0, nv_name = None\<rparr>]"

definition dns_rcodetab :: "dns_nameval list" where
  "dns_rcodetab = [
     nameval 0 ''NOERROR'', nameval 1 ''FORMERR'', nameval 2 ''SERVFAIL'',
     nameval 3 ''NXDOMAIN'', nameval 4 ''NOTIMPL'', nameval 5 ''REFUSED'',
     nameval 6 ''YXDOMAIN'', nameval 7 ''YXRRSET'', nameval 8 ''NXRRSET'', nameval 9 ''NOTAUTH'',
     nameval 10 ''NOTZONE'', nameval 16 ''BADSIG'', nameval 17 ''BADKEY'',
     nameval 18 ''BADTIME'', \<lparr>nv_val = 0, nv_name = None\<rparr>]"

section \<open>The lookups\<close>

definition pdns_logger_rcode2p :: "u32 \<Rightarrow> cstring" where
  "pdns_logger_rcode2p i =
     (if unat i < length dns_rcodetab then nv_name (dns_rcodetab ! unat i) else None)"

definition pdns_logger_type2p :: "u32 \<Rightarrow> cstring" where
  "pdns_logger_type2p i =
     (if unat i < length dns_typetab then nv_name (dns_typetab ! unat i) else None)"

definition pdns_logger_class2p :: "u32 \<Rightarrow> cstring" where
  "pdns_logger_class2p i =
     (if unat i < length dns_classtab then nv_name (dns_classtab ! unat i) else None)"

section \<open>Positional tables\<close>

text \<open>
  What the three tables have in common: a final sentinel without a name, every other entry
  named, and the lookup by position. The enumeration \<open>enum\<close> says which name each number
  should have.
\<close>

locale positional_table =
  fixes tab :: "dns_nameval list" and lookup :: "u32 \<Rightarrow> cstring"
    and enum :: "(nat \<times> string) list"
  assumes sentinel: "tab \<noteq> []" "nv_name (last tab) = None"
    and named: "\<And>e. e \<in> set (butlast tab) \<Longrightarrow> nv_name e \<noteq> None"
    and lookup_pos: "\<And>i. lookup i = (if unat i < length tab then nv_name (tab ! unat i) else None)"
    and enum_tab: "\<And>e. e \<in> set (butlast tab) \<Longrightarrow> map_of enum (nv_val e) = nv_name e"
begin

text \<open>Exactly the positions of the named entries give a name; every other code gives NULL.\<close>

lemma lookup_None_iff: "lookup i = None \<longleftrightarrow> length tab \<le> Suc (unat i)"
proof (cases "Suc (unat i) < length tab")
  case True
  then have "tab ! unat i = butlast tab ! unat i" "unat i < length (butlast tab)"
    by (simp_all add: nth_butlast)
  then have "nv_name (tab ! unat i) \<noteq> None" using named nth_mem by metis
  with True show ?thesis by (simp add: lookup_pos)
next
  case False
  then consider "unat i = length tab - 1" "unat i < length tab" | "length tab \<le> unat i"
    by linarith
  then show ?thesis
    using False sentinel by cases (simp_all add: lookup_pos last_conv_nth)
qed

text \<open>Where an entry stands at the position of its own number, the lookup is right.\<close>

lemma lookup_at_own_position:
  assumes "Suc (unat i) < length tab" "nv_val (tab ! unat i) = unat i"
  shows "lookup i = map_of enum (unat i)"
proof -
  have "tab ! unat i = butlast tab ! unat i" "unat i < length (butlast tab)"
    using assms(1) by (simp_all add: nth_butlast)
  then have "tab ! unat i \<in> set (butlast tab)" using nth_mem by metis
  then have "map_of enum (nv_val (tab ! unat i)) = nv_name (tab ! unat i)" by (rule enum_tab)
  with assms show ?thesis by (simp add: lookup_pos)
qed

text \<open>
  The whole agreement: a lookup differs from the header exactly at the named positions whose
  entry gives another name, and at the header's values that lie beyond the table.
\<close>

lemma lookup_agrees_iff:
  "lookup i = map_of enum (unat i) \<longleftrightarrow>
     (if Suc (unat i) < length tab then nv_name (tab ! unat i) = map_of enum (unat i)
      else map_of enum (unat i) = None)"
proof (cases "Suc (unat i) < length tab")
  case True
  then show ?thesis by (simp add: lookup_pos)
next
  case False
  then have "lookup i = None" by (simp add: lookup_None_iff)
  with False show ?thesis by (metis)
qed

end

lemmas dns_tables =
  dns_classtab_def dns_typetab_def dns_rcodetab_def dns_class_e_def dns_type_e_def dns_rcode_e_def

lemma dns_tables_sentinel:
  "dns_classtab \<noteq> []" "nv_name (last dns_classtab) = None"
  "dns_typetab \<noteq> []" "nv_name (last dns_typetab) = None"
  "dns_rcodetab \<noteq> []" "nv_name (last dns_rcodetab) = None"
  by (simp_all add: dns_tables)

lemma dns_tables_length:
  "length dns_classtab = 6" "length dns_typetab = 51" "length dns_rcodetab = 15"
  by (simp_all add: dns_tables)

lemma dns_tables_entries:
  "list_all (\<lambda>e. nv_name e \<noteq> None \<and> map_of dns_class_e (nv_val e) = nv_name e) (butlast dns_classtab)"
  "list_all (\<lambda>e. nv_name e \<noteq> None \<and> map_of dns_type_e (nv_val e) = nv_name e) (butlast dns_typetab)"
  "list_all (\<lambda>e. nv_name e \<noteq> None \<and> map_of dns_rcode_e (nv_val e) = nv_name e) (butlast dns_rcodetab)"
  by (simp_all add: dns_tables)

lemmas dns_tables_facts = dns_tables_sentinel dns_tables_entries [unfolded list_all_iff, rule_format]

interpretation dns_class: positional_table dns_classtab pdns_logger_class2p dns_class_e
  by unfold_locales (use dns_tables_facts in \<open>auto simp: pdns_logger_class2p_def\<close>)

interpretation dns_type: positional_table dns_typetab pdns_logger_type2p dns_type_e
  by unfold_locales (use dns_tables_facts in \<open>auto simp: pdns_logger_type2p_def\<close>)

interpretation dns_rcode: positional_table dns_rcodetab pdns_logger_rcode2p dns_rcode_e
  by unfold_locales (use dns_tables_facts in \<open>auto simp: pdns_logger_rcode2p_def\<close>)

section \<open>Where the lookups agree with the header\<close>

lemma typetab_positions:
  "n < 50 \<Longrightarrow> nv_name (dns_typetab ! n) = map_of dns_type_e n \<longleftrightarrow> n \<le> 41"
proof -
  have "list_all (\<lambda>n. (nv_name (dns_typetab ! n) = map_of dns_type_e n) = (n \<le> 41)) [0..<50]"
    by (simp add: upt_rec, simp add: dns_tables)
  then show "n < 50 \<Longrightarrow> nv_name (dns_typetab ! n) = map_of dns_type_e n \<longleftrightarrow> n \<le> 41"
    by (simp add: list_all_iff)
qed

lemma classtab_positions:
  "n < 5 \<Longrightarrow> nv_name (dns_classtab ! n) = map_of dns_class_e n \<longleftrightarrow> n \<le> 1"
proof -
  have "list_all (\<lambda>n. (nv_name (dns_classtab ! n) = map_of dns_class_e n) = (n \<le> 1)) [0..<5]"
    by (simp add: upt_rec, simp add: dns_tables)
  then show "n < 5 \<Longrightarrow> nv_name (dns_classtab ! n) = map_of dns_class_e n \<longleftrightarrow> n \<le> 1"
    by (simp add: list_all_iff)
qed

lemma rcodetab_positions:
  "n < 14 \<Longrightarrow> nv_name (dns_rcodetab ! n) = map_of dns_rcode_e n \<longleftrightarrow> n \<le> 10"
proof -
  have "list_all (\<lambda>n. (nv_name (dns_rcodetab ! n) = map_of dns_rcode_e n) = (n \<le> 10)) [0..<14]"
    by (simp add: upt_rec, simp add: dns_tables)
  then show "n < 14 \<Longrightarrow> nv_name (dns_rcodetab ! n) = map_of dns_rcode_e n \<longleftrightarrow> n \<le> 10"
    by (simp add: list_all_iff)
qed

text \<open>
  The type lookup agrees with the header's numbering of the query types for every 32-bit
  code except 42 to 49, which get the names of TSIG, IXFR, \<dots>, MAX, and the codes 250 to 256 and
  65536, which have names in the header and get none.
\<close>

lemma type2p_agrees_iff:
  "pdns_logger_type2p i = map_of dns_type_e (unat i) \<longleftrightarrow>
     unat i \<notin> {42..49} \<union> {250..256} \<union> {65536}"
proof (cases "unat i < 50")
  case True
  then show ?thesis
    by (auto simp: dns_type.lookup_agrees_iff dns_tables_length typetab_positions)
next
  case False
  then have "map_of dns_type_e (unat i) = None \<longleftrightarrow> unat i \<notin> {250..256} \<union> {65536}"
    by (auto simp: map_of_eq_None_iff dns_type_e_def)
  with False show ?thesis
    by (auto simp: dns_type.lookup_agrees_iff dns_tables_length)
qed

text \<open>
  The class lookup agrees with the header exactly on the codes other than 2, 3, 4 and 255:
  CHAOS (3) prints as HS, HESIOD (4) as ANY, the unassigned 2 as CH, and ANY (255) has no name.
\<close>

lemma class2p_agrees_iff:
  "pdns_logger_class2p i = map_of dns_class_e (unat i) \<longleftrightarrow> unat i \<notin> {2, 3, 4, 255}"
proof (cases "unat i < 5")
  case True
  then show ?thesis
    by (auto simp: dns_class.lookup_agrees_iff dns_tables_length classtab_positions)
next
  case False
  then have "map_of dns_class_e (unat i) = None \<longleftrightarrow> unat i \<noteq> 255"
    by (auto simp: map_of_eq_None_iff dns_class_e_def)
  with False show ?thesis
    by (auto simp: dns_class.lookup_agrees_iff dns_tables_length)
qed

text \<open>
  The response-code lookup agrees with the header exactly on the codes other than 11, 12
  and 13, which print as the TSIG errors, and 16, 17 and 18, the TSIG errors, which print as
  nothing.
\<close>

lemma rcode2p_agrees_iff:
  "pdns_logger_rcode2p i = map_of dns_rcode_e (unat i) \<longleftrightarrow> unat i \<notin> {11, 12, 13, 16, 17, 18}"
proof (cases "unat i < 14")
  case True
  then show ?thesis
    by (auto simp: dns_rcode.lookup_agrees_iff dns_tables_length rcodetab_positions)
next
  case False
  then have "map_of dns_rcode_e (unat i) = None \<longleftrightarrow> unat i \<notin> {16, 17, 18}"
    by (auto simp: map_of_eq_None_iff dns_rcode_e_def)
  with False show ?thesis
    by (auto simp: dns_rcode.lookup_agrees_iff dns_tables_length)
qed

text \<open>
  C37. Where the three lookups print the name the header \<^verbatim>\<open>pdns-logger-dns.h\<close> gives a code (or nothing for a
  code without a name): everywhere except where a table skips numbers, that is, for the types 42
  to 49, 250 to 256 and 65536, the classes 2, 3, 4 and 255, and the response codes 11 to 13 and
  16 to 18.
\<close>

theorem dns_names_agree_iff:
  "(pdns_logger_type2p i = map_of dns_type_e (unat i) \<longleftrightarrow> unat i \<notin> {42..49} \<union> {250..256} \<union> {65536}) \<and>
   (pdns_logger_class2p i = map_of dns_class_e (unat i) \<longleftrightarrow> unat i \<notin> {2, 3, 4, 255}) \<and>
   (pdns_logger_rcode2p i = map_of dns_rcode_e (unat i) \<longleftrightarrow> unat i \<notin> {11, 12, 13, 16, 17, 18})"
  by (intro conjI type2p_agrees_iff class2p_agrees_iff rcode2p_agrees_iff)

end
