(* ===== verification/Text_Line.thy ===== *)
theory Text_Line
  imports Pb_Message Dns_Names
begin

text \<open>
  What the file and the syslog backend share: the message filter, the fixed line buffer they
  fill piece by piece, the texts of a message, and the contract of a text backend. The lines
  are specified as prefixes of the concatenated texts; the buffer arithmetic of the sources
  keeps to that specification as long as all texts but the last fit.
\<close>

section \<open>Which messages are logged\<close>

definition msg_selected :: "bool \<Rightarrow> bool \<Rightarrow> pbdnsmessage option \<Rightarrow> bool" where
  "msg_selected disabled rewrites_only msg =
     (\<not> disabled \<and>
      (case msg of
         None \<Rightarrow> False
       | Some m \<Rightarrow>
           (case m_response m of
              None \<Rightarrow> False
            | Some r \<Rightarrow> rewrites_only \<longrightarrow> \<not> zstr (r_appliedpolicy r))))"

section \<open>The line buffer\<close>

text \<open>\<^verbatim>\<open>char str[1024]\<close> and the remaining room \<^verbatim>\<open>int sz\<close>, initially \<^verbatim>\<open>sizeof(str) - 1\<close>.\<close>

record line_buf =
  lb_str :: string
  lb_sz :: int

definition LINE_SIZE :: nat where
  "LINE_SIZE = 1024"

definition line_buf_init :: line_buf where
  "line_buf_init = \<lparr>lb_str = [], lb_sz = int LINE_SIZE - 1\<rparr>"

text \<open>\<^verbatim>\<open>pc = snprintf(tmp, sizeof(tmp), \<dots>); strncat(str, tmp, sz); sz -= pc;\<close>\<close>

definition add_text :: "string \<Rightarrow> line_buf \<Rightarrow> line_buf res" where
  "add_text txt b =
     (case snprintf LINE_SIZE txt of (tmp, pc) \<Rightarrow>
        rbind (strncat LINE_SIZE (lb_str b) tmp (size_t_of_int (lb_sz b)))
          (\<lambda>str. Inr \<lparr>lb_str = str, lb_sz = lb_sz b - pc\<rparr>))"

text \<open>The buffer after texts of \<open>all\<close> characters went in without overflow.\<close>

definition line_buf_of :: "string \<Rightarrow> line_buf" where
  "line_buf_of txt = \<lparr>lb_str = take (LINE_SIZE - 1) txt, lb_sz = int LINE_SIZE - 1 - int (length txt)\<rparr>"

lemma line_buf_init_of: "line_buf_init = line_buf_of []"
  by (simp add: line_buf_init_def line_buf_of_def LINE_SIZE_def)

lemma add_text_room:
  assumes "length all < LINE_SIZE"
  shows "add_text txt (line_buf_of all) = Inr (line_buf_of (all @ txt))"
proof -
  have n: "size_t_of_int (int LINE_SIZE - 1 - int (length all)) = LINE_SIZE - 1 - length all"
    using assms by (subst size_t_of_int_nonneg) (auto simp: LINE_SIZE_def)
  have "take (LINE_SIZE - 1 - length all) (take (LINE_SIZE - 1) txt) = take (LINE_SIZE - 1 - length all) txt"
    by (simp add: min_def)
  then show ?thesis
    using assms n
    by (simp add: add_text_def snprintf_def strncat_def line_buf_of_def Let_def LINE_SIZE_def)
qed

text \<open>
  Once more than 1023 characters were asked for, the remaining room is negative, the unsigned
  bound of \<^verbatim>\<open>strncat\<close> is huge, and the next non-empty text is written past the end.
\<close>

lemma add_text_overflow:
  assumes "LINE_SIZE \<le> length all" "int (length all) < 2 ^ 31" "txt \<noteq> []"
  shows "add_text txt (line_buf_of all) = Inl Buffer_Overflow"
proof -
  let ?n = "size_t_of_int (int LINE_SIZE - 1 - int (length all))"
  have n: "2 ^ 63 \<le> ?n" using assms by (intro size_t_of_int_neg) (auto simp: LINE_SIZE_def)
  have "length (take (LINE_SIZE - 1) txt) < 2 ^ 63" by (simp add: LINE_SIZE_def)
  with n have tk: "take ?n (take (LINE_SIZE - 1) txt) = take (LINE_SIZE - 1) txt"
    by (intro take_all) linarith
  have "0 < length (take (LINE_SIZE - 1) txt)" using assms(3) by (simp add: LINE_SIZE_def)
  with assms(1) have "LINE_SIZE < length (take (LINE_SIZE - 1) all @ take (LINE_SIZE - 1) txt) + 1"
    by (simp add: LINE_SIZE_def)
  then show ?thesis
    by (simp only: add_text_def snprintf_def strncat_def line_buf_of_def Let_def line_buf.select_convs
        tk prod.case if_True rbind_simps)
qed

text \<open>Texts fit when all of them but the last leave room for the terminating NUL.\<close>

fun texts_fit :: "nat \<Rightarrow> string list \<Rightarrow> bool" where
  "texts_fit used [] = True"
| "texts_fit used (t # ts) = (used < LINE_SIZE \<and> texts_fit (used + length t) ts)"

lemma texts_fit_append:
  "texts_fit used (ts @ us) \<longleftrightarrow> texts_fit used ts \<and> texts_fit (used + length (concat ts)) us"
  by (induction ts arbitrary: used) (auto simp: add.assoc)

lemma add_texts:
  assumes "[] \<notin> set ts" "int (length all + length (concat ts)) < 2 ^ 31"
  shows "rfold add_text ts (line_buf_of all) =
    (if texts_fit (length all) ts then Inr (line_buf_of (all @ concat ts)) else Inl Buffer_Overflow)"
  using assms
proof (induction ts arbitrary: all)
  case Nil
  show ?case by simp
next
  case (Cons t ts)
  show ?case
  proof (cases "length all < LINE_SIZE")
    case True
    with Cons.IH [of "all @ t"] Cons.prems show ?thesis by (simp add: add_text_room add.assoc)
  next
    case False
    with Cons.prems have "add_text t (line_buf_of all) = Inl Buffer_Overflow"
      by (intro add_text_overflow) auto
    with False show ?thesis by simp
  qed
qed

section \<open>The texts of a message\<close>

text \<open>
  The reference for both backends: which texts a message contributes, in order, and which lines
  they make. A message with records gives one line per record, each line holding everything
  written so far; a message without records gives one line.
\<close>

definition from_texts :: "pbdnsmessage \<Rightarrow> string list" where
  "from_texts m =
     (if \<not> m_has_from m then []
      else if bd_len (m_from m) = 4 then [''from: '' @ inet_ntop4 (bd_bytes (m_from m)) @ '' '']
      else if bd_len (m_from m) = 16 then [''from: '' @ inet_ntop6 (bd_bytes (m_from m)) @ '' '']
      else [])"

definition question_texts :: "dnsquestion \<Rightarrow> string list" where
  "question_texts q =
     (if q_has_qtype q then [''qtype: '' @ fmt_s (pdns_logger_type2p (q_qtype q)) @ '' ''] else []) @
     (if q_has_qclass q then [''qclass: '' @ fmt_s (pdns_logger_class2p (q_qclass q)) @ '' ''] else []) @
     [''qname: '' @ fmt_s (q_qname q) @ '' '']"

definition response_texts :: "dnsresponse \<Rightarrow> string list" where
  "response_texts r =
     (if r_has_rcode r then [''rcode: '' @ fmt_s (pdns_logger_rcode2p (r_rcode r)) @ '' ''] else []) @
     [''rrcount: '' @ dec (length (r_rrs r)) @ '' ''] @
     (if zstr (r_appliedpolicy r) then [] else [''policy: '' @ [CHR 0x27] @ fmt_s (r_appliedpolicy r) @ [CHR 0x27] @ '' ''])"

definition head_texts :: "pbdnsmessage \<Rightarrow> dnsresponse \<Rightarrow> string list" where
  "head_texts m r =
     (if m_has_id m then [''QID: '' @ fmt_d (m_id m) @ '' ''] else []) @
     from_texts m @
     (case m_question m of None \<Rightarrow> [] | Some q \<Rightarrow> question_texts q) @
     response_texts r"

text \<open>The record types whose data the backends print as a string: NS, CNAME, SOA and MX.\<close>

definition name_type :: "dnsrr \<Rightarrow> bool" where
  "name_type rr = (rr_has_type rr \<and> rr_type rr \<in> {2, 5, 6, 15})"

definition rdata_texts :: "u32 \<Rightarrow> dnsrr \<Rightarrow> string list" where
  "rdata_texts t rr =
     (if \<not> rr_has_rdata rr then []
      else if rr_has_type rr \<and> rr_type rr = 1 \<and> bd_len (rr_rdata rr) = 4
        then [''rdata-'' @ fmt_d t @ '': '' @ inet_ntop4 (bd_bytes (rr_rdata rr)) @ '' '']
      else if rr_has_type rr \<and> rr_type rr = 28 \<and> bd_len (rr_rdata rr) = 16
        then [''rdata-'' @ fmt_d t @ '': '' @ inet_ntop6 (bd_bytes (rr_rdata rr)) @ '' '']
      else if name_type rr
        then [''rdata-'' @ fmt_d t @ '': '' @
              fmt_s (case bd_as_cstring (rr_rdata rr) of Inl e \<Rightarrow> None | Inr s \<Rightarrow> s) @ '' '']
      else [''rdata (not supported) ''])"

definition rr_texts :: "u32 \<Rightarrow> dnsrr \<Rightarrow> string list" where
  "rr_texts t rr =
     [''rname-'' @ fmt_d t @ '': '' @ fmt_s (rr_name rr) @ '' ''] @
     (if rr_has_type rr then [''rtype-'' @ fmt_d t @ '': '' @ fmt_s (pdns_logger_type2p (rr_type rr)) @ '' ''] else []) @
     (if rr_has_class rr then [''rclass-'' @ fmt_d t @ '': '' @ fmt_s (pdns_logger_class2p (rr_class rr)) @ '' ''] else []) @
     (if rr_has_ttl rr then [''rttl-'' @ fmt_d t @ '': '' @ fmt_d (rr_ttl rr) @ '' ''] else []) @
     rdata_texts t rr"

fun rrs_texts :: "u32 \<Rightarrow> dnsrr list \<Rightarrow> string list" where
  "rrs_texts t [] = []"
| "rrs_texts t (rr # rrs) = rr_texts t rr @ rrs_texts (t + 1) rrs"

definition message_texts :: "pbdnsmessage \<Rightarrow> dnsresponse \<Rightarrow> string list" where
  "message_texts m r = head_texts m r @ rrs_texts 1 (r_rrs r)"

fun rr_lines :: "string \<Rightarrow> u32 \<Rightarrow> dnsrr list \<Rightarrow> string list" where
  "rr_lines all t [] = []"
| "rr_lines all t (rr # rrs) =
     (let all' = all @ concat (rr_texts t rr) in take (LINE_SIZE - 1) all' # rr_lines all' (t + 1) rrs)"

definition message_lines :: "pbdnsmessage \<Rightarrow> dnsresponse \<Rightarrow> string list" where
  "message_lines m r =
     (let all = concat (head_texts m r)
      in if r_rrs r = [] then [take (LINE_SIZE - 1) all] else rr_lines all 1 (r_rrs r))"

text \<open>
  Record data can be printed when its bytes hold a NUL, or when the record type is not printed
  as a string; a message can be printed when all its records can and it carries no subnet of
  the original requestor (which the sources assert).
\<close>

definition rr_printable :: "dnsrr \<Rightarrow> bool" where
  "rr_printable rr =
     (rr_has_rdata rr \<and> name_type rr \<longrightarrow>
        (case bd_data (rr_rdata rr) of None \<Rightarrow> True | Some bs \<Rightarrow> 0 \<in> set bs))"

definition msg_printable :: "bool \<Rightarrow> pbdnsmessage \<Rightarrow> bool" where
  "msg_printable ndebug m =
     ((m_has_originalrequestorsubnet m \<longrightarrow> ndebug) \<and>
      (case m_response m of None \<Rightarrow> True | Some r \<Rightarrow> list_all rr_printable (r_rrs r)))"

lemma texts_not_empty:
  "[] \<notin> set (head_texts m r)" "[] \<notin> set (rr_texts t rr)" "[] \<notin> set (rrs_texts t rrs)"
proof -
  show rr: "[] \<notin> set (rr_texts t rr)" for t rr by (simp add: rr_texts_def rdata_texts_def)
  show "[] \<notin> set (rrs_texts t rrs)" by (induction rrs arbitrary: t) (simp_all add: rr)
  show "[] \<notin> set (head_texts m r)"
    by (simp add: head_texts_def from_texts_def question_texts_def response_texts_def split: option.split)
qed

lemma length_rr_lines [simp]: "length (rr_lines all t rrs) = length rrs"
  by (induction rrs arbitrary: all t) (simp_all add: Let_def)

lemma rr_lines_bounded: "l \<in> set (rr_lines all t rrs) \<Longrightarrow> length l < LINE_SIZE"
  by (induction rrs arbitrary: all t) (auto simp: Let_def LINE_SIZE_def)

lemma message_lines_length: "length (message_lines m r) = max 1 (length (r_rrs r))"
  by (cases "r_rrs r") (simp_all add: message_lines_def Let_def)

lemma message_lines_bounded: "l \<in> set (message_lines m r) \<Longrightarrow> length l < LINE_SIZE"
  by (auto simp: message_lines_def Let_def LINE_SIZE_def dest: rr_lines_bounded split: if_splits)

text \<open>Every line repeats the lines before it.\<close>

lemma rr_lines_extend: "l \<in> set (rr_lines all t rrs) \<Longrightarrow> prefix (take (LINE_SIZE - 1) all) l"
proof (induction rrs arbitrary: all t)
  case (Cons rr rrs)
  have "prefix (take (LINE_SIZE - 1) all) (take (LINE_SIZE - 1) (all @ x))" for x
    by (simp add: take_append)
  with Cons.IH [of "all @ concat (rr_texts t rr)" "t + 1"] Cons.prems show ?case
    by (auto simp: Let_def dest: append_prefixD)
qed simp

lemma rr_lines_prefixes: "sorted_wrt prefix (rr_lines all t rrs)"
  by (induction rrs arbitrary: all t) (auto simp: Let_def dest: rr_lines_extend)

lemma message_lines_prefixes: "sorted_wrt prefix (message_lines m r)"
  by (simp add: message_lines_def Let_def rr_lines_prefixes)

section \<open>The contract of a text backend\<close>

text \<open>
  What a backend promises: its head and record writers append exactly the texts of the
  reference, its record loop writes one line after each record, and writing a line succeeds
  while the backend is ready and keeps it so. The theorem on \<open>log\<close> is then the same for all.
\<close>

locale text_backend =
  fixes head :: "bool \<Rightarrow> pbdnsmessage \<Rightarrow> dnsresponse \<Rightarrow> line_buf \<Rightarrow> line_buf res"
    and rr_out :: "u32 \<Rightarrow> dnsrr \<Rightarrow> line_buf \<Rightarrow> line_buf res"
    and rrs_out :: "u32 \<Rightarrow> dnsrr list \<Rightarrow> line_buf \<Rightarrow> 's \<Rightarrow> 's res"
    and out :: "string \<Rightarrow> 's \<Rightarrow> 's res"
    and log :: "bool \<Rightarrow> pbdnsmessage option \<Rightarrow> 's \<Rightarrow> (pdns_status \<times> 's) res"
    and ready :: "'s \<Rightarrow> bool"
    and put :: "string \<Rightarrow> 's \<Rightarrow> 's"
    and off :: "'s \<Rightarrow> bool"
    and rewr :: "'s \<Rightarrow> bool"
  assumes head_ok: "msg_wf m \<Longrightarrow> (m_has_originalrequestorsubnet m \<longrightarrow> nd) \<Longrightarrow>
        head nd m r b = rfold add_text (head_texts m r) b"
    and head_subnet: "msg_wf m \<Longrightarrow> m_has_originalrequestorsubnet m \<Longrightarrow>
        head False m r line_buf_init = Inl Assert_Failed"
    and rr_ok: "rr_wf x \<Longrightarrow> rr_printable x \<Longrightarrow> rr_out t x b = rfold add_text (rr_texts t x) b"
    and rrs_Nil: "rrs_out t [] b s = Inr s"
    and rrs_Cons: "rrs_out t (x # xs) b s =
        rbind (rr_out t x b) (\<lambda>b'. rbind (out (lb_str b') s) (rrs_out (t + 1) xs b'))"
    and out_ok: "ready s \<Longrightarrow> out l s = Inr (put l s)"
    and put_ready: "ready s \<Longrightarrow> ready (put l s)"
    and log_skip: "\<not> msg_selected (off s) (rewr s) msg \<Longrightarrow> log nd msg s = Inr (PDNS_OK, s)"
    and log_run: "msg_selected (off s) (rewr s) (Some m) \<Longrightarrow> m_response m = Some r \<Longrightarrow>
        log nd (Some m) s =
          rbind (head nd m r line_buf_init)
            (\<lambda>b. rbind (if r_rrs r = [] then out (lb_str b) s else rrs_out 1 (r_rrs r) b s)
                   (\<lambda>s'. Inr (PDNS_OK, s')))"
begin

lemma fold_put_ready: "ready s \<Longrightarrow> ready (fold put ls s)"
  by (induction ls arbitrary: s) (simp_all add: put_ready)

lemma rrs_lines:
  assumes "list_all rr_wf xs" "list_all rr_printable xs" "ready s"
    and "int (length all + length (concat (rrs_texts t xs))) < 2 ^ 31"
  shows "rrs_out t xs (line_buf_of all) s =
    (if texts_fit (length all) (rrs_texts t xs) then Inr (fold put (rr_lines all t xs) s)
     else Inl Buffer_Overflow)"
  using assms
proof (induction xs arbitrary: t all s)
  case Nil
  then show ?case by (simp add: rrs_Nil)
next
  case (Cons x xs)
  let ?all = "all @ concat (rr_texts t x)"
  have "rr_out t x (line_buf_of all) =
      (if texts_fit (length all) (rr_texts t x) then Inr (line_buf_of ?all) else Inl Buffer_Overflow)"
    using Cons.prems by (simp add: rr_ok add_texts texts_not_empty)
  moreover have "rrs_out (t + 1) xs (line_buf_of ?all) (put (take (LINE_SIZE - 1) ?all) s) =
      (if texts_fit (length ?all) (rrs_texts (t + 1) xs)
       then Inr (fold put (rr_lines ?all (t + 1) xs) (put (take (LINE_SIZE - 1) ?all) s))
       else Inl Buffer_Overflow)"
    by (rule Cons.IH) (use Cons.prems in \<open>simp_all add: put_ready add.assoc\<close>)
  ultimately show ?case
    using Cons.prems(3) out_ok [of s "lb_str (line_buf_of ?all)"]
    by (simp add: rrs_Cons texts_fit_append Let_def line_buf_of_def)
qed

theorem log_lines:
  assumes "msg_selected (off s) (rewr s) (Some m)" "m_response m = Some r"
    and "msg_wf m" "msg_printable nd m" "ready s"
    and "int (length (concat (message_texts m r))) < 2 ^ 31"
  shows "log nd (Some m) s =
    (if texts_fit 0 (message_texts m r) then Inr (PDNS_OK, fold put (message_lines m r) s)
     else Inl Buffer_Overflow)"
proof -
  let ?all = "concat (head_texts m r)"
  have h: "head nd m r line_buf_init =
      (if texts_fit 0 (head_texts m r) then Inr (line_buf_of ?all) else Inl Buffer_Overflow)"
    using add_texts [of "head_texts m r" "[]"] assms texts_not_empty(1)
    by (simp add: head_ok msg_printable_def line_buf_init_of message_texts_def)
  have "rrs_out 1 (r_rrs r) (line_buf_of ?all) s =
      (if texts_fit (length ?all) (rrs_texts 1 (r_rrs r)) then Inr (fold put (rr_lines ?all 1 (r_rrs r)) s)
       else Inl Buffer_Overflow)"
    by (rule rrs_lines) (use assms in \<open>simp_all add: msg_wf_def msg_printable_def message_texts_def\<close>)
  with h show ?thesis
    using assms(1,2,5) out_ok [of s "lb_str (line_buf_of ?all)"]
    by (simp add: log_run texts_fit_append message_texts_def message_lines_def Let_def line_buf_of_def)
qed

text \<open>A message with the requestor's subnet stops a build with assertions.\<close>

lemma log_subnet:
  assumes "msg_selected (off s) (rewr s) (Some m)" "msg_wf m" "m_has_originalrequestorsubnet m"
  shows "log False (Some m) s = Inl Assert_Failed"
proof -
  obtain r where "m_response m = Some r"
    using assms(1) by (auto simp: msg_selected_def split: option.splits)
  with assms show ?thesis by (simp add: log_run head_subnet)
qed

end

section \<open>Example messages\<close>

text \<open>An answer with one address record, rewritten by a policy.\<close>

definition example_rr :: dnsrr where
  "example_rr = pbdnsmessage__dnsresponse__dnsrr__init
     \<lparr>rr_name := Some ''a.org.'', rr_has_type := True, rr_type := 1, rr_has_rdata := True,
      rr_rdata := \<lparr>bd_len = 4, bd_data = Some [10, 0, 0, 1]\<rparr>\<rparr>"

definition example_response :: dnsresponse where
  "example_response = pbdnsmessage__dnsresponse__init
     \<lparr>r_has_rcode := True, r_appliedpolicy := Some ''rpz'', r_rrs := [example_rr]\<rparr>"

definition example_msg :: pbdnsmessage where
  "example_msg = pbdnsmessage__init
     \<lparr>m_has_id := True, m_id := 7,
      m_question := Some (pbdnsmessage__dnsquestion__init\<lparr>q_qname := Some ''a.org.''\<rparr>),
      m_response := Some example_response\<rparr>"

text \<open>The same with a policy name that fills the line.\<close>

definition long_response :: dnsresponse where
  "long_response = example_response\<lparr>r_appliedpolicy := Some (replicate 1100 CHR ''p'')\<rparr>"

definition long_msg :: pbdnsmessage where
  "long_msg = example_msg\<lparr>m_response := Some long_response\<rparr>"

lemmas example_defs =
  example_rr_def example_response_def example_msg_def long_response_def long_msg_def pb_init_defs

lemmas text_defs =
  message_texts_def head_texts_def from_texts_def question_texts_def response_texts_def
  rr_texts_def rdata_texts_def

lemma example_ok:
  "msg_selected False True (Some example_msg)" "m_response example_msg = Some example_response"
  "msg_wf example_msg" "msg_printable nd example_msg"
  by (simp_all add: msg_selected_def msg_wf_def rr_wf_def bdata_wf_def msg_printable_def rr_printable_def
      name_type_def example_defs)

lemma long_ok:
  "msg_selected False True (Some long_msg)" "m_response long_msg = Some long_response"
  "msg_wf long_msg" "msg_printable nd long_msg"
  by (simp_all add: msg_selected_def msg_wf_def rr_wf_def bdata_wf_def msg_printable_def rr_printable_def
      name_type_def example_defs)

lemma example_texts:
  "message_texts example_msg example_response =
     [''QID: 7 '', ''qname: a.org. '', ''rcode: NOERROR '', ''rrcount: 1 '',
      ''policy: '' @ [CHR 0x27] @ ''rpz'' @ [CHR 0x27] @ '' '',
      ''rname-1: a.org. '', ''rtype-1: A '', ''rdata-1: 10.0.0.1 '']"
  by (simp add: text_defs example_defs fmt_d_def show_int_def dec.simps
      pdns_logger_rcode2p_def pdns_logger_type2p_def dns_tables bd_bytes_def inet_ntop4_def)

lemma long_texts:
  "message_texts long_msg long_response =
     [''QID: 7 '', ''qname: a.org. '', ''rcode: NOERROR '', ''rrcount: 1 '',
      ''policy: '' @ [CHR 0x27] @ replicate 1100 CHR ''p'' @ [CHR 0x27] @ '' '',
      ''rname-1: a.org. '', ''rtype-1: A '', ''rdata-1: 10.0.0.1 '']"
  by (simp add: text_defs example_defs fmt_d_def show_int_def dec.simps
      pdns_logger_rcode2p_def pdns_logger_type2p_def dns_tables bd_bytes_def inet_ntop4_def)

lemma example_fits:
  "texts_fit 0 (message_texts example_msg example_response)"
  "int (length (concat (message_texts example_msg example_response))) < 2 ^ 31"
  "\<not> texts_fit 0 (message_texts long_msg long_response)"
  "int (length (concat (message_texts long_msg long_response))) < 2 ^ 31"
  by (simp_all add: example_texts long_texts LINE_SIZE_def)

end
