(* ===== verification/Ini.thy ===== *)
theory Ini
  imports C_Library
begin

text \<open>
  The INI parser of \<^verbatim>\<open>src/inih/ini.c\<close> with the options its header sets: handlers get the line
  number, multi-line values, a byte-order mark and inline comments are allowed, lines hold at
  most 199 characters, and parsing goes on after an error. The reading loop is a partial
  function over its reader; a stream of characters makes it total.
\<close>

section \<open>Constants and string helpers\<close>

definition INI_MAX_LINE :: nat where "INI_MAX_LINE = 200"
definition MAX_SECTION :: nat where "MAX_SECTION = 50"
definition MAX_NAME :: nat where "MAX_NAME = 50"

function rstrip :: "string \<Rightarrow> string" where
  "rstrip s = (if s \<noteq> [] \<and> isspace (last s) then rstrip (butlast s) else s)"
  by pat_completeness auto
termination
  by (relation "measure length") auto

declare rstrip.simps [simp del]

fun lskip :: "string \<Rightarrow> string" where
  "lskip [] = []"
| "lskip (c # s) = (if isspace c then lskip s else c # s)"

text \<open>
  The result is the rest of the string from the character found on; \<open>before\<close> is what the
  caller keeps when it overwrites that character with NUL.
\<close>

fun find_chars_from :: "string option \<Rightarrow> bool \<Rightarrow> string \<Rightarrow> string" where
  "find_chars_from chars was_space [] = []"
| "find_chars_from chars was_space (c # s) =
     (if (case chars of None \<Rightarrow> False | Some cs \<Rightarrow> c \<in> set cs) \<or> (was_space \<and> c \<in> set '';'')
      then c # s
      else find_chars_from chars (isspace c) s)"

definition find_chars_or_comment :: "string \<Rightarrow> string option \<Rightarrow> string" where
  "find_chars_or_comment s chars = find_chars_from chars False s"

definition before :: "string \<Rightarrow> string \<Rightarrow> string" where
  "before s rest = take (length s - length rest) s"

definition strncpy0 :: "string \<Rightarrow> nat \<Rightarrow> string" where
  "strncpy0 src n = take (n - 1) src"

section \<open>Readers\<close>

text \<open>
  \<^verbatim>\<open>fgets(buf, num, stream)\<close> on a stream of characters: at most \<open>num - 1\<close> of them, up to and
  including a newline; NULL at the end. The buffer is then used as a C string.
\<close>

fun read_line :: "nat \<Rightarrow> string \<Rightarrow> string \<times> string" where
  "read_line 0 xs = ([], xs)"
| "read_line (Suc n) [] = ([], [])"
| "read_line (Suc n) (c # xs) =
     (if c = CHR 0x0A then ([c], xs) else (case read_line n xs of (l, r) \<Rightarrow> (c # l, r)))"

definition c_string :: "string \<Rightarrow> string" where
  "c_string xs = takeWhile (\<lambda>c. c \<noteq> CHR 0x00) xs"

definition fgets :: "nat \<Rightarrow> string \<Rightarrow> (string \<times> string) option" where
  "fgets num xs =
     (if xs = [] then None else case read_line (num - 1) xs of (l, r) \<Rightarrow> Some (c_string l, r))"

text \<open>The reader of \<^verbatim>\<open>ini_parse_string\<close>: its loop stores into the line buffer \<open>acc\<close>.\<close>

function reader_string_loop :: "nat \<Rightarrow> string \<Rightarrow> string \<Rightarrow> string \<times> string" where
  "reader_string_loop num ctx acc =
     (if 1 < num \<and> ctx \<noteq> [] then
        let c = hd ctx; ctx' = tl ctx; acc' = acc @ [c] in
        if c = CHR 0x0A then (acc', ctx') else reader_string_loop (num - 1) ctx' acc'
      else (acc, ctx))"
  by pat_completeness auto
termination
  by (relation "measure fst") auto

declare reader_string_loop.simps [simp del]

definition ini_reader_string :: "nat \<Rightarrow> string \<Rightarrow> (string \<times> string) option" where
  "ini_reader_string num ctx =
     (if ctx = [] \<or> num < 2 then None
      else case reader_string_loop num ctx [] of (l, r) \<Rightarrow> Some (c_string l, r))"

section \<open>Parsing\<close>

text \<open>A handler takes user data, section, name, value and line; it returns non-zero and new user data.\<close>

type_synonym 'u ini_handler = "'u \<Rightarrow> string \<Rightarrow> string \<Rightarrow> string \<Rightarrow> nat \<Rightarrow> bool \<times> 'u"

record 'u ini_state =
  ini_section :: string
  ini_prev_name :: string
  ini_lineno :: nat
  ini_error :: nat
  ini_user :: 'u

definition ini_init :: "'u \<Rightarrow> 'u ini_state" where
  "ini_init u = \<lparr>ini_section = [], ini_prev_name = [], ini_lineno = 0, ini_error = 0, ini_user = u\<rparr>"

definition note_error :: "'u ini_state \<Rightarrow> 'u ini_state" where
  "note_error st = (if ini_error st = 0 then st\<lparr>ini_error := ini_lineno st\<rparr> else st)"

definition call_handler :: "'u ini_handler \<Rightarrow> string \<Rightarrow> string \<Rightarrow> 'u ini_state \<Rightarrow> 'u ini_state" where
  "call_handler handler name value st =
     (case handler (ini_user st) (ini_section st) name value (ini_lineno st) of
        (ok, u) \<Rightarrow> (if ok then st\<lparr>ini_user := u\<rparr> else note_error (st\<lparr>ini_user := u\<rparr>)))"

definition has_bom :: "string \<Rightarrow> bool" where
  "has_bom line = (take 3 line = [CHR 0xEF, CHR 0xBB, CHR 0xBF])"

text \<open>
  The text of a line: past a byte-order mark on the first line, stripped on both sides; and
  whether the test \<^verbatim>\<open>start > line\<close> holds, that is, whether something was skipped on the left.
\<close>

definition line_start :: "nat \<Rightarrow> string \<Rightarrow> string \<times> bool" where
  "line_start lineno line =
     (let bom = (lineno = 1 \<and> has_bom line);
          stripped = rstrip (if bom then drop 3 line else line);
          start = lskip stripped
      in (start, bom \<or> length start < length stripped))"

text \<open>A line \<^verbatim>\<open>[section]\<close>, and a line \<^verbatim>\<open>name=value\<close> or \<^verbatim>\<open>name:value\<close>; \<open>None\<close> where the mark is missing.\<close>

definition parse_section :: "string \<Rightarrow> string option" where
  "parse_section start =
     (let e = find_chars_or_comment (tl start) (Some '']'')
      in if e \<noteq> [] \<and> hd e = CHR '']'' then Some (strncpy0 (before (tl start) e) MAX_SECTION) else None)"

definition parse_pair :: "string \<Rightarrow> (string \<times> string) option" where
  "parse_pair start =
     (let e = find_chars_or_comment start (Some ''=:'')
      in if e \<noteq> [] \<and> (hd e = CHR ''='' \<or> hd e = CHR '':'')
         then (let name = rstrip (before start e);
                   raw = tl e;
                   value = rstrip (lskip (before raw (find_chars_or_comment raw None)))
               in Some (name, value))
         else None)"

text \<open>The body of the reading loop.\<close>

definition ini_line :: "'u ini_handler \<Rightarrow> string \<Rightarrow> 'u ini_state \<Rightarrow> 'u ini_state" where
  "ini_line handler line st0 =
     (let st = st0\<lparr>ini_lineno := Suc (ini_lineno st0)\<rparr>
      in case line_start (ini_lineno st) line of (start, moved) \<Rightarrow>
         if start \<noteq> [] \<and> (hd start = CHR '';'' \<or> hd start = CHR ''#'') then st
         else if ini_prev_name st \<noteq> [] \<and> start \<noteq> [] \<and> moved
         then call_handler handler (ini_prev_name st) start st
         else if start \<noteq> [] \<and> hd start = CHR ''[''
         then (case parse_section start of
                 Some sec \<Rightarrow> st\<lparr>ini_section := sec, ini_prev_name := []\<rparr>
               | None \<Rightarrow> note_error st)
         else if start \<noteq> []
         then (case parse_pair start of
                 Some (name, value) \<Rightarrow>
                   call_handler handler name value (st\<lparr>ini_prev_name := strncpy0 name MAX_NAME\<rparr>)
               | None \<Rightarrow> note_error st)
         else st)"

partial_function (option) ini_parse_stream ::
  "(nat \<Rightarrow> string \<Rightarrow> (string \<times> string) option) \<Rightarrow> string \<Rightarrow> 'u ini_handler \<Rightarrow> 'u ini_state \<Rightarrow> 'u ini_state option" where
  "ini_parse_stream reader stream handler st =
     (case reader INI_MAX_LINE stream of
        None \<Rightarrow> Some st
      | Some (line, stream') \<Rightarrow> ini_parse_stream reader stream' handler (ini_line handler line st))"

text \<open>The error code (0 or the line of the first error) and the user data.\<close>

definition ini_result :: "'u ini_state \<Rightarrow> int \<times> 'u" where
  "ini_result st = (int (ini_error st), ini_user st)"

definition ini_parse_file :: "string \<Rightarrow> 'u ini_handler \<Rightarrow> 'u \<Rightarrow> (int \<times> 'u) option" where
  "ini_parse_file file handler user =
     map_option ini_result (ini_parse_stream fgets file handler (ini_init user))"

text \<open>\<open>fs\<close> gives the contents of the files that can be opened for reading.\<close>

definition ini_parse :: "(string \<rightharpoonup> string) \<Rightarrow> string \<Rightarrow> 'u ini_handler \<Rightarrow> 'u \<Rightarrow> (int \<times> 'u) option" where
  "ini_parse fs filename handler user =
     (case fs filename of
        None \<Rightarrow> Some (-1, user)
      | Some file \<Rightarrow> ini_parse_file file handler user)"

definition ini_parse_string :: "string \<Rightarrow> 'u ini_handler \<Rightarrow> 'u \<Rightarrow> (int \<times> 'u) option" where
  "ini_parse_string str handler user =
     map_option ini_result (ini_parse_stream ini_reader_string str handler (ini_init user))"

section \<open>String helpers against the library\<close>

lemma lskip_eq: "lskip s = dropWhile isspace s"
  by (induction s) auto

lemma rstrip_snoc: "rstrip (s @ [c]) = (if isspace c then rstrip s else s @ [c])"
  by (simp add: rstrip.simps [of "s @ [c]"])

lemma rstrip_Nil [simp]: "rstrip [] = []"
  by (simp add: rstrip.simps)

lemma rstrip_eq: "rstrip s = rev (dropWhile isspace (rev s))"
  by (induction s rule: rev_induct) (auto simp: rstrip_snoc)

lemma rstrip_id: "s = [] \<or> \<not> isspace (last s) \<Longrightarrow> rstrip s = s"
  by (auto simp: rstrip.simps [of s])

lemma lskip_id: "s = [] \<or> \<not> isspace (hd s) \<Longrightarrow> lskip s = s"
  by (cases s) auto

lemma length_lskip: "length (lskip s) \<le> length s"
  by (simp add: lskip_eq length_dropWhile_le)

section \<open>Readers agree; reading terminates\<close>

lemma read_line_rest: "length (snd (read_line n xs)) \<le> length xs"
  by (induction n xs rule: read_line.induct) (auto split: prod.splits)

lemma fgets_shorter: "fgets INI_MAX_LINE xs = Some (l, r) \<Longrightarrow> length r < length xs"
proof -
  assume "fgets INI_MAX_LINE xs = Some (l, r)"
  then obtain c ys l' where xs: "xs = c # ys" and r: "read_line (Suc 198) (c # ys) = (l', r)"
    by (cases xs) (auto simp: fgets_def INI_MAX_LINE_def split: prod.splits)
  then show ?thesis
    using read_line_rest [of 198 ys] unfolding read_line.simps by (auto split: if_splits prod.splits)
qed

lemma reader_string_loop_eq:
  "reader_string_loop (Suc n) ctx acc = (case read_line n ctx of (l, r) \<Rightarrow> (acc @ l, r))"
proof (induction n ctx arbitrary: acc rule: read_line.induct)
  case (3 n c xs)
  then show ?case
    by (simp add: reader_string_loop.simps [of "Suc (Suc n)"] Let_def split: prod.splits)
qed (simp_all add: reader_string_loop.simps)

lemma ini_reader_string_eq_fgets: "2 \<le> num \<Longrightarrow> ini_reader_string num xs = fgets num xs"
  using reader_string_loop_eq [of "num - 1" xs "[]"]
  by (auto simp: ini_reader_string_def fgets_def split: prod.splits)

text \<open>The lines a stream is read in.\<close>

function split_lines :: "string \<Rightarrow> string list" where
  "split_lines xs =
     (case fgets INI_MAX_LINE xs of None \<Rightarrow> [] | Some (l, r) \<Rightarrow> l # split_lines r)"
  by pat_completeness auto
termination
  by (relation "measure length") (auto simp: fgets_shorter)

declare split_lines.simps [simp del]

lemma ini_parse_stream_lines:
  "ini_parse_stream fgets xs h st = Some (fold (ini_line h) (split_lines xs) st)"
proof (induction xs arbitrary: st rule: split_lines.induct)
  case (1 xs)
  show ?case
  proof (cases "fgets INI_MAX_LINE xs")
    case None
    then show ?thesis by (simp add: ini_parse_stream.simps [of _ xs] split_lines.simps [of xs])
  next
    case (Some a)
    then obtain l r where a: "fgets INI_MAX_LINE xs = Some (l, r)" by (cases a) auto
    then have "ini_parse_stream fgets r h st' = Some (fold (ini_line h) (split_lines r) st')" for st'
      using "1.IH" by blast
    with a show ?thesis by (simp add: ini_parse_stream.simps [of _ xs] split_lines.simps [of xs])
  qed
qed

lemma ini_parse_file_lines:
  "ini_parse_file file h u = Some (ini_result (fold (ini_line h) (split_lines file) (ini_init u)))"
  by (simp add: ini_parse_file_def ini_parse_stream_lines)

lemma ini_parse_stream_readers:
  "ini_parse_stream ini_reader_string xs h st = ini_parse_stream fgets xs h st"
proof (induction xs arbitrary: st rule: split_lines.induct)
  case (1 xs)
  have eq: "ini_reader_string INI_MAX_LINE xs = fgets INI_MAX_LINE xs"
    by (rule ini_reader_string_eq_fgets) (simp add: INI_MAX_LINE_def)
  show ?case
    using "1.IH"
    by (simp add: ini_parse_stream.simps [of _ xs] eq split: option.splits prod.splits)
qed


section \<open>Events\<close>

text \<open>
  Everything a handler is told, independently of the handler: the calls a recording handler
  sees, and the line of the first syntax error.
\<close>

type_synonym ini_event = "string \<times> string \<times> string \<times> nat"

definition record_handler :: "ini_event list ini_handler" where
  "record_handler u s n v l = (True, u @ [(s, n, v, l)])"

definition ini_scan :: "string list \<Rightarrow> ini_event list ini_state" where
  "ini_scan ls = fold (ini_line record_handler) ls (ini_init [])"

definition ini_events :: "string \<Rightarrow> ini_event list" where
  "ini_events file = ini_user (ini_scan (split_lines file))"

definition ini_syntax_error :: "string \<Rightarrow> nat" where
  "ini_syntax_error file = ini_error (ini_scan (split_lines file))"

definition apply_event :: "'u ini_handler \<Rightarrow> ini_event \<Rightarrow> 'u \<Rightarrow> 'u" where
  "apply_event h e u = (case e of (s, n, v, l) \<Rightarrow> snd (h u s n v l))"

definition with_user :: "'u \<Rightarrow> 'v ini_state \<Rightarrow> 'u ini_state" where
  "with_user u st =
     \<lparr>ini_section = ini_section st, ini_prev_name = ini_prev_name st, ini_lineno = ini_lineno st,
      ini_error = ini_error st, ini_user = u\<rparr>"

text \<open>A handler that never reports an error, as all handlers of the program.\<close>

locale accepting_handler =
  fixes h :: "'u ini_handler"
  assumes accepts: "fst (h u s n v l)"
begin

lemma handler_pair: "h u s n v l = (True, apply_event h (s, n, v, l) u)"
  using accepts [of u s n v l] by (simp add: apply_event_def prod_eq_iff)

lemma call_handler_sim:
  "call_handler h n v (with_user (fold (apply_event h) (ini_user st) u) st) =
     with_user (fold (apply_event h) (ini_user (call_handler record_handler n v st)) u)
       (call_handler record_handler n v st)"
  by (simp add: call_handler_def record_handler_def with_user_def handler_pair)

lemma line_sim:
  "ini_line h line (with_user (fold (apply_event h) (ini_user st) u) st) =
     with_user (fold (apply_event h) (ini_user (ini_line record_handler line st)) u)
       (ini_line record_handler line st)"
proof -
  have ln: "ini_lineno (with_user u' st') = ini_lineno st'" "ini_prev_name (with_user u' st') = ini_prev_name st'"
    for u' and st' :: "ini_event list ini_state"
    by (simp_all add: with_user_def)
  have upd: "(with_user u' st)\<lparr>ini_lineno := k\<rparr> = with_user u' (st\<lparr>ini_lineno := k\<rparr>)"
    "(with_user u' st')\<lparr>ini_prev_name := x\<rparr> = with_user u' (st'\<lparr>ini_prev_name := x\<rparr>)"
    "(with_user u' st')\<lparr>ini_section := y, ini_prev_name := x\<rparr> = with_user u' (st'\<lparr>ini_section := y, ini_prev_name := x\<rparr>)"
    "note_error (with_user u' st') = with_user u' (note_error st')"
    "ini_user (note_error st') = ini_user st'" for u' k x y and st' :: "ini_event list ini_state"
    by (simp_all add: with_user_def note_error_def)
  have call: "call_handler h n v (with_user (fold (apply_event h) (ini_user st) u) (st\<lparr>ini_lineno := k\<rparr>)) =
     with_user (fold (apply_event h) (ini_user (call_handler record_handler n v (st\<lparr>ini_lineno := k\<rparr>))) u)
       (call_handler record_handler n v (st\<lparr>ini_lineno := k\<rparr>))"
    "call_handler h n v (with_user (fold (apply_event h) (ini_user st) u) (st\<lparr>ini_lineno := k, ini_prev_name := x\<rparr>)) =
     with_user (fold (apply_event h) (ini_user (call_handler record_handler n v (st\<lparr>ini_lineno := k, ini_prev_name := x\<rparr>))) u)
       (call_handler record_handler n v (st\<lparr>ini_lineno := k, ini_prev_name := x\<rparr>))" for n v k x
    using call_handler_sim [of n v "st\<lparr>ini_lineno := k\<rparr>" u]
      call_handler_sim [of n v "st\<lparr>ini_lineno := k, ini_prev_name := x\<rparr>" u] by simp_all
  obtain start moved where ls: "line_start (Suc (ini_lineno st)) line = (start, moved)" by fastforce
  show ?thesis
    by (cases "parse_section start"; cases "parse_pair start")
      (auto simp: ini_line_def Let_def ls ln upd call)
qed

lemma lines_sim:
  "fold (ini_line h) ls (with_user (fold (apply_event h) (ini_user st) u) st) =
     with_user (fold (apply_event h) (ini_user (fold (ini_line record_handler) ls st)) u)
       (fold (ini_line record_handler) ls st)"
  by (induction ls arbitrary: st) (simp_all add: line_sim)

lemma parse_file:
  "ini_parse_file file h u =
     Some (int (ini_syntax_error file), fold (apply_event h) (ini_events file) u)"
proof -
  have "ini_init u = with_user (fold (apply_event h) (ini_user (ini_init [])) u) (ini_init [])"
    by (simp add: ini_init_def with_user_def)
  then have "fold (ini_line h) (split_lines file) (ini_init u) =
      with_user (fold (apply_event h) (ini_events file) u) (ini_scan (split_lines file))"
    using lines_sim [of "split_lines file" "ini_init []" u] unfolding ini_events_def ini_scan_def by metis
  then show ?thesis
    by (simp add: ini_parse_file_lines ini_syntax_error_def ini_result_def with_user_def)
qed

end

text \<open>A handler that looks at one section only.\<close>

locale section_handler = accepting_handler +
  fixes own :: string and upd :: "string \<Rightarrow> string \<Rightarrow> 'a \<Rightarrow> 'a"
  assumes other: "s \<noteq> own \<Longrightarrow> snd (h u s n v l) = u"
    and mine: "snd (h u own n v l) = upd n v u"
begin

lemma apply_events_own:
  "fold (apply_event h) evs u =
     fold (\<lambda>(n, v). upd n v) [(n, v). (s, n, v, l) \<leftarrow> evs, s = own] u"
proof (induction evs arbitrary: u)
  case (Cons e evs)
  obtain s n v l where "e = (s, n, v, l)" by (cases e) auto
  with Cons other mine show ?case by (cases "s = own") (auto simp: apply_event_def)
qed simp

lemma parse_file_own:
  "ini_parse_file file h u =
     Some (int (ini_syntax_error file),
           fold (\<lambda>(n, v). upd n v) [(n, v). (s, n, v, l) \<leftarrow> ini_events file, s = own] u)"
  by (simp add: parse_file apply_events_own)

end

section \<open>Printing and parsing back\<close>

text \<open>
  A document is a list of sections with their name and value pairs. The conditions say what an
  INI file of this dialect can express: bounded lengths, no control characters, no delimiter
  inside a name, no inline comment inside a value, nothing the stripping would remove.
\<close>

abbreviation newline :: char where "newline \<equiv> CHR 0x0A"

definition plain_text :: "string \<Rightarrow> bool" where
  "plain_text s = list_all (\<lambda>c. c \<noteq> newline \<and> c \<noteq> CHR 0x00) s"

definition stripped :: "string \<Rightarrow> bool" where
  "stripped s = (s \<noteq> [] \<longrightarrow> \<not> isspace (hd s) \<and> \<not> isspace (last s))"

definition section_ok :: "string \<Rightarrow> bool" where
  "section_ok s = (length s < MAX_SECTION \<and> plain_text s \<and> list_all (\<lambda>c. c \<notin> set ''];'') s)"

definition pair_ok :: "string \<times> string \<Rightarrow> bool" where
  "pair_ok p =
     (case p of (n, v) \<Rightarrow>
        n \<noteq> [] \<and> plain_text n \<and> stripped n \<and> list_all (\<lambda>c. c \<notin> set ''=:;'') n \<and>
        hd n \<notin> set ''#['' \<and>
        plain_text v \<and> stripped v \<and> find_chars_or_comment v None = [] \<and>
        length n + length v + 3 \<le> INI_MAX_LINE)"

definition doc_ok :: "(string \<times> (string \<times> string) list) list \<Rightarrow> bool" where
  "doc_ok doc = list_all (\<lambda>(s, kvs). section_ok s \<and> list_all pair_ok kvs) doc"

definition print_section :: "string \<Rightarrow> string" where
  "print_section s = ''['' @ s @ '']'' @ [newline]"

definition print_pair :: "string \<times> string \<Rightarrow> string" where
  "print_pair p = fst p @ ''='' @ snd p @ [newline]"

definition print_lines :: "(string \<times> (string \<times> string) list) list \<Rightarrow> string list" where
  "print_lines doc = concat (map (\<lambda>(s, kvs). print_section s # map print_pair kvs) doc)"

definition print_ini :: "(string \<times> (string \<times> string) list) list \<Rightarrow> string" where
  "print_ini doc = concat (print_lines doc)"

text \<open>The calls a handler should see, with their line numbers; \<open>l\<close> lines came before.\<close>

fun pair_events :: "nat \<Rightarrow> string \<Rightarrow> (string \<times> string) list \<Rightarrow> ini_event list" where
  "pair_events l s [] = []"
| "pair_events l s ((n, v) # kvs) = (s, n, v, Suc l) # pair_events (Suc l) s kvs"

fun doc_events :: "nat \<Rightarrow> (string \<times> (string \<times> string) list) list \<Rightarrow> ini_event list" where
  "doc_events l [] = []"
| "doc_events l ((s, kvs) # doc) =
     pair_events (Suc l) s kvs @ doc_events (Suc l + length kvs) doc"

lemma print_pair_eq: "print_pair (n, v) = n @ ''='' @ v @ [newline]"
  by (simp add: print_pair_def)

lemma read_line_newline:
  "newline \<notin> set l \<Longrightarrow> length l < n \<Longrightarrow> read_line n (l @ newline # rest) = (l @ [newline], rest)"
proof (induction l arbitrary: n)
  case Nil
  then show ?case by (cases n) auto
next
  case (Cons c l)
  then show ?case by (cases n) auto
qed

lemma split_lines_Cons:
  assumes "plain_text l" "length l < INI_MAX_LINE - 1"
  shows "split_lines (l @ newline # rest) = (l @ [newline]) # split_lines rest"
proof -
  have "newline \<notin> set l" "CHR 0x00 \<notin> set l" using assms(1) by (auto simp: plain_text_def list_all_iff)
  then have "read_line (INI_MAX_LINE - 1) (l @ newline # rest) = (l @ [newline], rest)"
    "c_string (l @ [newline]) = l @ [newline]"
    using read_line_newline [of l "INI_MAX_LINE - 1" rest] assms(2)
    by (auto simp: c_string_def takeWhile_all)
  then show ?thesis by (subst split_lines.simps) (simp add: fgets_def)
qed

lemma split_lines_Nil [simp]: "split_lines [] = []"
  by (simp add: split_lines.simps fgets_def)

lemma find_chars_from_hit:
  "list_all (\<lambda>c. c \<notin> set cs \<and> c \<noteq> CHR '';'') s \<Longrightarrow> c \<in> set cs \<Longrightarrow>
     find_chars_from (Some cs) w (s @ c # t) = c # t"
  by (induction s arbitrary: w) auto

lemma before_append: "before (s @ t) t = s"
  by (simp add: before_def)

lemma not_space_marks: "\<not> isspace (CHR ''['')" "\<not> isspace (CHR '']'')" "\<not> isspace (CHR ''='')" "isspace newline"
  by (simp_all add: isspace_def)

lemma rstrip_line: "s = [] \<or> \<not> isspace (last s) \<Longrightarrow> rstrip (s @ [newline]) = s"
  by (simp add: rstrip_snoc not_space_marks rstrip_id)

lemma ini_line_section:
  assumes "section_ok s"
  shows "ini_line h (print_section s) st =
    st\<lparr>ini_lineno := Suc (ini_lineno st), ini_section := s, ini_prev_name := []\<rparr>"
proof -
  let ?start = "CHR ''['' # s @ '']''"
  have strip: "rstrip (?start @ [newline]) = ?start"
    by (rule rstrip_line) (simp add: not_space_marks)
  have "line_start k (print_section s) = (?start, False)" for k
    using strip by (simp add: line_start_def print_section_def has_bom_def not_space_marks)
  moreover have "parse_section ?start = Some s"
  proof -
    have "list_all (\<lambda>c. c \<notin> set '']'' \<and> c \<noteq> CHR '';'') s"
      using assms by (auto simp: section_ok_def list_all_iff)
    then have "find_chars_or_comment (s @ '']'') (Some '']'') = '']''"
      unfolding find_chars_or_comment_def by (intro find_chars_from_hit) simp_all
    with assms show ?thesis
      by (simp add: parse_section_def before_append strncpy0_def section_ok_def MAX_SECTION_def)
  qed
  ultimately show ?thesis by (simp add: ini_line_def)
qed

lemma ini_line_pair:
  assumes "pair_ok (n, v)" "ini_lineno st \<noteq> 0"
  shows "ini_line h (print_pair (n, v)) st =
    call_handler h n v (st\<lparr>ini_lineno := Suc (ini_lineno st), ini_prev_name := strncpy0 n MAX_NAME\<rparr>)"
proof -
  let ?start = "n @ ''='' @ v"
  have n: "n \<noteq> []" "\<not> isspace (hd n)" "\<not> isspace (last n)" "list_all (\<lambda>c. c \<notin> set ''=:'' \<and> c \<noteq> CHR '';'') n"
    "hd n \<noteq> CHR ''#''" "hd n \<noteq> CHR ''[''"
    using assms(1) by (auto simp: pair_ok_def stripped_def list_all_iff)
  have semi: "hd n \<noteq> CHR '';''" using n(1,4) by (cases n) auto
  have v: "v = [] \<or> \<not> isspace (hd v) \<and> \<not> isspace (last v)" "find_chars_or_comment v None = []"
    using assms(1) by (auto simp: pair_ok_def stripped_def)
  have "\<not> isspace (last ?start)" using v(1) by (auto simp: not_space_marks)
  then have strip: "rstrip (?start @ [newline]) = ?start"
    by (intro rstrip_line disjI2)
  have "lskip ?start = ?start" using n by (intro lskip_id) simp
  then have "line_start (Suc (ini_lineno st)) (print_pair (n, v)) = (?start, False)"
    using strip assms(2) by (simp add: line_start_def print_pair_def)
  moreover have "parse_pair ?start = Some (n, v)"
  proof -
    have "find_chars_or_comment ?start (Some ''=:'') = CHR ''='' # v"
      unfolding find_chars_or_comment_def using find_chars_from_hit [OF n(4), of "CHR ''=''" False v] by simp
    moreover have "before ?start (CHR ''='' # v) = n" using before_append [of n "CHR ''='' # v"] by simp
    moreover have "rstrip n = n" "rstrip (lskip v) = v" using n v by (auto simp: rstrip_id lskip_id)
    moreover have "before v [] = v" by (simp add: before_def)
    ultimately show ?thesis using v(2) by (simp add: parse_pair_def Let_def)
  qed
  moreover have "hd ?start = hd n" using n(1) by simp
  ultimately show ?thesis using n semi by (simp add: ini_line_def)
qed

text \<open>Running the recording handler over printed lines.\<close>

lemma fold_pairs:
  assumes "list_all pair_ok kvs" "ini_lineno st \<noteq> 0"
  defines "st' \<equiv> fold (ini_line record_handler) (map print_pair kvs) st"
  shows "ini_user st' = ini_user st @ pair_events (ini_lineno st) (ini_section st) kvs \<and>
    ini_error st' = ini_error st \<and> ini_lineno st' = ini_lineno st + length kvs"
  unfolding st'_def using assms(1,2)
proof (induction kvs arbitrary: st)
  case (Cons p kvs)
  obtain n v where p: "p = (n, v)" by fastforce
  define st1 where "st1 = ini_line record_handler (print_pair p) st"
  have st1: "ini_user st1 = ini_user st @ [(ini_section st, n, v, Suc (ini_lineno st))]"
    "ini_error st1 = ini_error st" "ini_lineno st1 = Suc (ini_lineno st)" "ini_section st1 = ini_section st"
    using ini_line_pair [of n v st record_handler] Cons.prems p
    by (simp_all add: st1_def call_handler_def record_handler_def)
  have "fold (ini_line record_handler) (map print_pair (p # kvs)) st =
      fold (ini_line record_handler) (map print_pair kvs) st1"
    by (simp add: st1_def)
  with Cons.IH [of st1] Cons.prems p st1 show ?case by simp
qed simp

lemma fold_doc:
  fixes st :: "ini_event list ini_state"
  assumes "doc_ok doc"
  defines "st' \<equiv> fold (ini_line record_handler) (print_lines doc) st"
  shows "ini_user st' = ini_user st @ doc_events (ini_lineno st) doc \<and> ini_error st' = ini_error st"
  unfolding st'_def using assms(1)
proof (induction doc arbitrary: st)
  case Nil
  show ?case by (simp add: print_lines_def)
next
  case (Cons d doc)
  obtain s kvs where d: "d = (s, kvs)" by fastforce
  have ok: "section_ok s" "list_all pair_ok kvs" "doc_ok doc" using Cons.prems d by (simp_all add: doc_ok_def)
  define st1 where "st1 = ini_line record_handler (print_section s) st"
  define st2 where "st2 = fold (ini_line record_handler) (map print_pair kvs) st1"
  have st1: "ini_user st1 = ini_user st" "ini_error st1 = ini_error st" "ini_lineno st1 = Suc (ini_lineno st)"
    "ini_section st1 = s"
    using ini_line_section [OF ok(1), of record_handler st] by (simp_all add: st1_def)
  then have st2: "ini_user st2 = ini_user st @ pair_events (Suc (ini_lineno st)) s kvs"
    "ini_error st2 = ini_error st" "ini_lineno st2 = Suc (ini_lineno st) + length kvs"
    using fold_pairs [OF ok(2), of st1] by (simp_all add: st2_def)
  have "fold (ini_line record_handler) (print_lines (d # doc)) st = fold (ini_line record_handler) (print_lines doc) st2"
    by (simp add: print_lines_def d st1_def st2_def)
  with Cons.IH [OF ok(3), of st2] st2 d show ?case by simp
qed

lemma split_lines_print: "doc_ok doc \<Longrightarrow> split_lines (print_ini doc) = print_lines doc"
proof -
  have *: "split_lines (concat (map print_pair kvs) @ rest) = map print_pair kvs @ split_lines rest"
    if "list_all pair_ok kvs" for kvs rest
    using that
  proof (induction kvs)
    case (Cons p kvs)
    obtain n v where p: "p = (n, v)" by fastforce
    then have "plain_text (n @ ''='' @ v)" "length (n @ ''='' @ v) < INI_MAX_LINE - 1"
      using Cons.prems by (auto simp: pair_ok_def plain_text_def)
    from split_lines_Cons [OF this, of "concat (map print_pair kvs) @ rest"] Cons p
    show ?case by (simp add: print_pair_eq)
  qed simp
  show "doc_ok doc \<Longrightarrow> split_lines (print_ini doc) = print_lines doc"
  proof (induction doc)
    case (Cons d doc)
    obtain s kvs where d: "d = (s, kvs)" by fastforce
    with Cons.prems have ok: "section_ok s" "list_all pair_ok kvs" "doc_ok doc" by (simp_all add: doc_ok_def)
    then have "plain_text (''['' @ s @ '']'')" "length (''['' @ s @ '']'') < INI_MAX_LINE - 1"
      by (auto simp: section_ok_def plain_text_def MAX_SECTION_def INI_MAX_LINE_def)
    from split_lines_Cons [OF this, of "concat (map print_pair kvs) @ print_ini doc"] * [OF ok(2), of "print_ini doc"]
      Cons.IH [OF ok(3)] d
    show ?case by (simp add: print_ini_def print_lines_def print_section_def)
  qed (simp add: print_ini_def print_lines_def)
qed

text \<open>
  C30. Printing and parsing an INI document: for every document the dialect can express, parsing
  its text reports no error and calls the handler with exactly the document's sections, names
  and values, in order, with the right line numbers.
\<close>

theorem ini_print_parse:
  assumes "doc_ok doc"
  shows "ini_parse_file (print_ini doc) record_handler [] = Some (0, doc_events 0 doc)"
  using fold_doc [OF assms, of "ini_init []"] split_lines_print [OF assms]
  by (simp add: ini_parse_file_lines ini_result_def ini_init_def)

theorem ini_print_parse_witness:
  "doc_ok [(''globals'', [(''bind-ip'', ''127.0.0.1''), (''bind-port'', ''4242'')]), (''logfile'', [(''logfile'', ''/var/log/a b'')])] \<and>
   ini_parse_file (print_ini [(''globals'', [(''bind-ip'', ''127.0.0.1''), (''bind-port'', ''4242'')]), (''logfile'', [(''logfile'', ''/var/log/a b'')])])
     record_handler [] =
   Some (0, [(''globals'', ''bind-ip'', ''127.0.0.1'', 2), (''globals'', ''bind-port'', ''4242'', 3), (''logfile'', ''logfile'', ''/var/log/a b'', 5)])"
proof -
  have ok: "doc_ok [(''globals'', [(''bind-ip'', ''127.0.0.1''), (''bind-port'', ''4242'')]), (''logfile'', [(''logfile'', ''/var/log/a b'')])]"
    by (simp add: doc_ok_def section_ok_def pair_ok_def plain_text_def stripped_def find_chars_or_comment_def
        MAX_SECTION_def INI_MAX_LINE_def isspace_def)
  with ini_print_parse [OF ok] show ?thesis by simp
qed

end
