(* ===== verification/Config.thy ===== *)
theory Config
  imports Ini
begin

text \<open>
  The daemon's own settings: the structure \<^verbatim>\<open>globals_t\<close> of \<^verbatim>\<open>src/pdns-logger.h.in\<close> and the
  \<^verbatim>\<open>[globals]\<close> section reader of \<^verbatim>\<open>src/pdns-logger-ini.c\<close>.
\<close>

section \<open>Settings\<close>

record globals =
  g_user :: cstring
  g_group :: cstring
  config_file :: cstring
  bind_ip :: cstring
  bind_port :: int
  allow_root :: bool
  foreground :: bool
  running :: bool
  verbose :: bool
  g_socket :: int

text \<open>\<^verbatim>\<open>memset(&globals, 0, sizeof(globals_t))\<close>.\<close>

definition globals_zero :: globals where
  "globals_zero =
     \<lparr>g_user = None, g_group = None, config_file = None, bind_ip = None, bind_port = 0,
      allow_root = False, foreground = False, running = False, verbose = False, g_socket = 0\<rparr>"

section \<open>The handler and the reader\<close>

definition globals_opt_handler :: "globals ini_handler" where
  "globals_opt_handler globals section name value lineno =
     (if zstr (Some section) \<or> zstr (Some name) \<or> zstr (Some value) then (True, globals)
      else if str_eq_lit section ''globals'' then
        (if str_eq_lit name ''bind-ip'' then (True, globals\<lparr>bind_ip := Some value\<rparr>)
         else if str_eq_lit name ''bind-port'' then (True, globals\<lparr>bind_port := atoi value\<rparr>)
         else if str_eq_lit name ''allow-root'' then (True, globals\<lparr>allow_root := (atoi value \<noteq> 0)\<rparr>)
         else if str_eq_lit name ''foreground'' then (True, globals\<lparr>foreground := (atoi value \<noteq> 0)\<rparr>)
         else (True, globals))
      else (True, globals))"

definition parse_config_file :: "(string \<rightharpoonup> string) \<Rightarrow> cstring \<Rightarrow> globals \<Rightarrow> (pdns_status \<times> globals) option" where
  "parse_config_file fs cf globals =
     (if zstr cf then Some (PDNS_NO, globals)
      else map_option (\<lambda>(err, globals'). (if err \<noteq> 0 then PDNS_NO else PDNS_OK, globals'))
             (ini_parse fs (the cf) globals_opt_handler globals))"

section \<open>What a setting does\<close>

text \<open>The effect of one name and value of the section, empty ones having none.\<close>

definition set_global :: "string \<Rightarrow> string \<Rightarrow> globals \<Rightarrow> globals" where
  "set_global n v g =
     (if n = [] \<or> v = [] then g
      else if n = ''bind-ip'' then g\<lparr>bind_ip := Some v\<rparr>
      else if n = ''bind-port'' then g\<lparr>bind_port := atoi v\<rparr>
      else if n = ''allow-root'' then g\<lparr>allow_root := (atoi v \<noteq> 0)\<rparr>
      else if n = ''foreground'' then g\<lparr>foreground := (atoi v \<noteq> 0)\<rparr>
      else g)"

interpretation globals_ini: section_handler globals_opt_handler "''globals''" set_global
  by unfold_locales (simp_all add: globals_opt_handler_def set_global_def)

text \<open>The names and values of one section of a file, in the order they are reported.\<close>

definition section_settings :: "string \<Rightarrow> string \<Rightarrow> (string \<times> string) list" where
  "section_settings sec file = [(n, v). (s, n, v, l) \<leftarrow> ini_events file, s = sec]"

text \<open>A printed document has no syntax error, and its sections hold their settings.\<close>

lemma print_ini_settings:
  assumes "doc_ok doc"
  shows "ini_syntax_error (print_ini doc) = 0"
    and "section_settings sec (print_ini doc) = concat (map snd (filter (\<lambda>d. fst d = sec) doc))"
proof -
  have sc: "ini_user (ini_scan (split_lines (print_ini doc))) = doc_events 0 doc"
    "ini_error (ini_scan (split_lines (print_ini doc))) = 0"
    using fold_doc [OF assms, of "ini_init []"] split_lines_print [OF assms]
    by (simp_all add: ini_scan_def ini_init_def)
  show "ini_syntax_error (print_ini doc) = 0" by (simp add: ini_syntax_error_def sc)
  have pairs: "[(n, v). (s, n, v, l) \<leftarrow> pair_events k s' kvs, s = sec] = (if s' = sec then kvs else [])" for k s' kvs
    by (induction k s' kvs rule: pair_events.induct) auto
  have "[(n, v). (s, n, v, l) \<leftarrow> doc_events k doc, s = sec] = concat (map snd (filter (\<lambda>d. fst d = sec) doc))" for k
    by (induction k doc rule: doc_events.induct) (auto simp: pairs)
  then show "section_settings sec (print_ini doc) = concat (map snd (filter (\<lambda>d. fst d = sec) doc))"
    by (simp add: section_settings_def ini_events_def sc)
qed

text \<open>
  Reading the configuration: it fails without touching the settings when no file name is
  given or the file cannot be opened; otherwise every name and value of the \<^verbatim>\<open>[globals]\<close> section
  takes effect in order, other sections and unknown names have none, and the status is success
  exactly when the file has no syntax error.
\<close>

lemma parse_config_file_spec:
  "parse_config_file fs cf g =
     Some (case cf of
             None \<Rightarrow> (PDNS_NO, g)
           | Some f \<Rightarrow>
               if f = [] then (PDNS_NO, g)
               else case fs f of
                 None \<Rightarrow> (PDNS_NO, g)
               | Some file \<Rightarrow>
                   (if ini_syntax_error file = 0 then PDNS_OK else PDNS_NO,
                    fold (\<lambda>(n, v). set_global n v) (section_settings ''globals'' file) g))"
proof (cases cf)
  case (Some f)
  then show ?thesis
    by (cases "fs f")
      (simp_all add: parse_config_file_def ini_parse_def globals_ini.parse_file_own section_settings_def)
qed (simp add: parse_config_file_def)

section \<open>Settings written and read back\<close>

lemma isspace_minus: "\<not> isspace (CHR ''-'')"
  by (simp add: isspace_def)

lemma dec_chars: "c \<in> set (dec n) \<Longrightarrow> c \<noteq> newline \<and> c \<noteq> CHR 0x00 \<and> c \<noteq> CHR '';'' \<and> \<not> isspace c"
  using dec_digits [of c n] isdigit_not_space [of c] by (auto simp: isdigit_def Let_def)

lemma show_int_chars:
  "c \<in> set (show_int i) \<Longrightarrow> c \<noteq> newline \<and> c \<noteq> CHR 0x00 \<and> c \<noteq> CHR '';'' \<and> \<not> isspace c"
  using isspace_minus by (auto simp: show_int_def dest: dec_chars split: if_splits)

lemma show_int_not_Nil [simp]: "show_int i \<noteq> []"
  by (simp add: show_int_def)

lemma find_comment_none:
  "(\<And>c. c \<in> set s \<Longrightarrow> c \<noteq> CHR '';'') \<Longrightarrow> find_chars_or_comment s None = []"
proof -
  have "find_chars_from None w s = []" if "\<And>c. c \<in> set s \<Longrightarrow> c \<noteq> CHR '';''" for w
    using that by (induction s arbitrary: w) auto
  then show "(\<And>c. c \<in> set s \<Longrightarrow> c \<noteq> CHR '';'') \<Longrightarrow> find_chars_or_comment s None = []"
    by (simp add: find_chars_or_comment_def)
qed

lemma show_int_value:
  "plain_text (show_int i)" "stripped (show_int i)" "find_chars_or_comment (show_int i) None = []"
  using show_int_chars [of _ i]
  by (auto simp: plain_text_def list_all_iff stripped_def intro: find_comment_none)

definition globals_doc :: "string \<Rightarrow> int \<Rightarrow> bool \<Rightarrow> bool \<Rightarrow> (string \<times> (string \<times> string) list) list" where
  "globals_doc ip port root fg =
     [(''globals'', [(''bind-ip'', ip), (''bind-port'', show_int port),
                     (''allow-root'', show_int (of_bool root)), (''foreground'', show_int (of_bool fg))])]"

lemma globals_doc_ok:
  assumes "pair_ok (''bind-ip'', ip)" "- (2 ^ 31) \<le> port" "port < 2 ^ 31"
  shows "doc_ok (globals_doc ip port root fg)"
proof -
  have "length (show_int port) \<le> 11" "length (show_int 0) \<le> 11" "length (show_int 1) \<le> 11"
    using assms by (auto intro!: length_show_int)
  then show ?thesis
    using assms(1)
    by (simp add: globals_doc_def doc_ok_def section_ok_def pair_ok_def show_int_value)
      (simp add: plain_text_def stripped_def isspace_def MAX_SECTION_def INI_MAX_LINE_def)
qed

text \<open>
  Settings survive a round trip through the configuration file: a \<^verbatim>\<open>[globals]\<close> section written
  with any address text, any 32-bit port number in decimal and any two flags is read back as
  these values, overriding what the command line had set.
\<close>

lemma globals_round_trip:
  assumes "pair_ok (''bind-ip'', ip)" "ip \<noteq> []" "- (2 ^ 31) \<le> port" "port < 2 ^ 31" "f \<noteq> []"
  shows "parse_config_file [f \<mapsto> print_ini (globals_doc ip port root fg)] (Some f) g =
    Some (PDNS_OK, g\<lparr>bind_ip := Some ip, bind_port := port, allow_root := root, foreground := fg\<rparr>)"
proof -
  have ok: "doc_ok (globals_doc ip port root fg)" by (rule globals_doc_ok) fact+
  have ev: "section_settings ''globals'' (print_ini (globals_doc ip port root fg)) =
      [(''bind-ip'', ip), (''bind-port'', show_int port), (''allow-root'', show_int (of_bool root)),
       (''foreground'', show_int (of_bool fg))]"
    "ini_syntax_error (print_ini (globals_doc ip port root fg)) = 0"
    using print_ini_settings [OF ok] by (simp_all add: globals_doc_def)
  have "atoi (show_int port) = port" "atoi (show_int (of_bool b)) = of_bool b" for b
    using assms by (auto intro!: atoi_show_int)
  then show ?thesis
    using assms(2,5) ev
    by (simp add: parse_config_file_def ini_parse_def globals_ini.parse_file_own
        section_settings_def [symmetric] set_global_def)
qed

end
