(* ===== verification/Logfile.thy ===== *)
theory Logfile
  imports Text_Line Config
begin

text \<open>
  The log file backend, \<^verbatim>\<open>src/pdns-logger-file.c\<close>: its settings, the stdio stream it writes, log
  rotation, and \<^verbatim>\<open>logfile_log\<close>. The disk is modelled with names and inodes apart, because a
  rotation renames the file under an open stream; characters wait in the stream's buffer until
  the library spills them or the code flushes.
\<close>

section \<open>Disk and stream\<close>

record disk =
  names :: "string \<rightharpoonup> nat"
  contents :: "nat \<Rightarrow> string"
  fresh :: nat
  writable :: "string \<Rightarrow> bool"

text \<open>A \<^verbatim>\<open>FILE *\<close>: NULL, an open stream on an inode with its buffered text, or closed memory.\<close>

datatype file_ptr = Fp_Null | Fp_Open nat string | Fp_Closed

record logfile =
  fp :: file_ptr
  lf_file :: cstring
  force_flush :: bool
  lf_rewrites_only :: bool
  lf_disabled :: bool
  lf_disk :: disk

text \<open>The static initialisers.\<close>

definition logfile_static :: "disk \<Rightarrow> logfile" where
  "logfile_static d =
     \<lparr>fp = Fp_Null, lf_file = None, force_flush = False, lf_rewrites_only = True,
      lf_disabled = False, lf_disk = d\<rparr>"

definition append_to :: "nat \<Rightarrow> string \<Rightarrow> disk \<Rightarrow> disk" where
  "append_to i txt d = d\<lparr>contents := (contents d)(i := contents d i @ txt)\<rparr>"

text \<open>\<^verbatim>\<open>fopen(path, "a")\<close>: the inode of the name, a new empty one when the name is free.\<close>

definition fopen_append :: "string \<Rightarrow> disk \<Rightarrow> file_ptr \<times> disk" where
  "fopen_append path d =
     (if \<not> writable d path then (Fp_Null, d)
      else case names d path of
        Some i \<Rightarrow> (Fp_Open i [], d)
      | None \<Rightarrow> (Fp_Open (fresh d) [],
                 d\<lparr>names := (names d)(path \<mapsto> fresh d), contents := (contents d)(fresh d := []),
                   fresh := Suc (fresh d)\<rparr>))"

text \<open>
  \<^verbatim>\<open>fprintf\<close> on a stream: the text joins the buffer, of which the library writes out as much as
  \<open>spill\<close> says; \<^verbatim>\<open>fflush\<close> and \<^verbatim>\<open>fclose\<close> write all of it.
\<close>

definition fprintf :: "(string \<Rightarrow> nat) \<Rightarrow> string \<Rightarrow> file_ptr \<Rightarrow> disk \<Rightarrow> (file_ptr \<times> disk) res" where
  "fprintf spill txt f d =
     (case f of
        Fp_Open i buf \<Rightarrow>
          (let n = spill (buf @ txt)
           in Inr (Fp_Open i (drop n (buf @ txt)), append_to i (take n (buf @ txt)) d))
      | Fp_Null \<Rightarrow> Inl Null_Deref
      | Fp_Closed \<Rightarrow> Inl Use_After_Free)"

definition fflush :: "file_ptr \<Rightarrow> disk \<Rightarrow> (file_ptr \<times> disk) res" where
  "fflush f d =
     (case f of
        Fp_Open i buf \<Rightarrow> Inr (Fp_Open i [], append_to i buf d)
      | Fp_Null \<Rightarrow> Inl Null_Deref
      | Fp_Closed \<Rightarrow> Inl Use_After_Free)"

definition fclose :: "file_ptr \<Rightarrow> disk \<Rightarrow> (file_ptr \<times> disk) res" where
  "fclose f d = rbind (fflush f d) (\<lambda>(f', d'). Inr (Fp_Closed, d'))"

text \<open>\<^verbatim>\<open>freopen(path, "a", f)\<close> closes the stream, then opens the name; NULL when that fails. Without a
  name the stream stays on its file.\<close>

definition freopen_append :: "cstring \<Rightarrow> file_ptr \<Rightarrow> disk \<Rightarrow> (file_ptr \<times> disk) res" where
  "freopen_append path f d =
     (case path of
        None \<Rightarrow> fflush f d
      | Some p \<Rightarrow> rbind (fclose f d) (\<lambda>(f', d'). Inr (fopen_append p d')))"

section \<open>Settings\<close>

definition logfile_opt_handler :: "logfile ini_handler" where
  "logfile_opt_handler s section name value lineno =
     (if zstr (Some section) \<or> zstr (Some name) \<or> zstr (Some value) then (True, s)
      else if str_eq_lit section ''logfile'' then
        (if str_eq_lit name ''logfile'' then (True, s\<lparr>lf_file := Some value\<rparr>)
         else if str_eq_lit name ''force-flush'' then (True, s\<lparr>force_flush := (atoi value \<noteq> 0)\<rparr>)
         else if str_eq_lit name ''only-rewrites'' then (True, s\<lparr>lf_rewrites_only := (atoi value \<noteq> 0)\<rparr>)
         else if str_eq_lit name ''disabled'' then (True, s\<lparr>lf_disabled := (atoi value \<noteq> 0)\<rparr>)
         else (True, s))
      else (True, s))"

section \<open>Start, rotation, stop\<close>

definition logfile_init :: "(string \<rightharpoonup> string) \<Rightarrow> cstring \<Rightarrow> logfile \<Rightarrow> (pdns_status \<times> logfile) option" where
  "logfile_init fs inifile s =
     (if zstr inifile then Some (PDNS_NO, s)
      else map_option (\<lambda>(err, s').
             if err \<noteq> 0 then (PDNS_NO, s')
             else if lf_disabled s' then (PDNS_OK, s')
             else if zstr (lf_file s') then (PDNS_NO, s')
             else case fopen_append (the (lf_file s')) (lf_disk s') of (f, d) \<Rightarrow>
               (if f = Fp_Null then PDNS_NO else PDNS_OK, s'\<lparr>fp := f, lf_disk := d\<rparr>))
           (ini_parse fs (the inifile) logfile_opt_handler s))"

definition logfile_rotate :: "logfile \<Rightarrow> (pdns_status \<times> logfile) res" where
  "logfile_rotate s =
     (if fp s = Fp_Null then Inr (PDNS_OK, s)
      else rbind (freopen_append (lf_file s) (fp s) (lf_disk s))
             (\<lambda>(f, d). Inr (if f = Fp_Null then PDNS_NO else PDNS_OK, s\<lparr>fp := f, lf_disk := d\<rparr>)))"

definition logfile_stop :: "logfile \<Rightarrow> (pdns_status \<times> logfile) res" where
  "logfile_stop s =
     (let s1 = s\<lparr>lf_file := None\<rparr>
      in if fp s1 = Fp_Null then Inr (PDNS_OK, s1)
         else rbind (fclose (fp s1) (lf_disk s1))
                (\<lambda>(f, d). Inr (PDNS_OK, s1\<lparr>fp := f, lf_disk := d\<rparr>)))"

section \<open>Logging a message\<close>

definition logfile_write_log :: "(string \<Rightarrow> nat) \<Rightarrow> string \<Rightarrow> logfile \<Rightarrow> logfile res" where
  "logfile_write_log spill str s =
     (if fp s = Fp_Null then Inr s
      else rbind (fprintf spill (str @ [newline]) (fp s) (lf_disk s))
             (\<lambda>(f, d). if force_flush s
                       then rbind (fflush f d) (\<lambda>(f', d'). Inr (s\<lparr>fp := f', lf_disk := d'\<rparr>))
                       else Inr (s\<lparr>fp := f, lf_disk := d\<rparr>)))"

definition logfile_from :: "pbdnsmessage \<Rightarrow> line_buf \<Rightarrow> line_buf res" where
  "logfile_from m b =
     (if m_has_from m then
        (if bd_len (m_from m) = 4 then
           rbind (bd_read 4 (m_from m)) (\<lambda>a. add_text (''from: '' @ inet_ntop4 a @ '' '') b)
         else if bd_len (m_from m) = 16 then
           rbind (bd_read 16 (m_from m)) (\<lambda>a. add_text (''from: '' @ inet_ntop6 a @ '' '') b)
         else Inr b)
      else Inr b)"

definition logfile_question :: "dnsquestion option \<Rightarrow> line_buf \<Rightarrow> line_buf res" where
  "logfile_question q b =
     (case q of
        None \<Rightarrow> Inr b
      | Some q \<Rightarrow>
          rbind (if q_has_qtype q
                 then add_text (''qtype: '' @ fmt_s (pdns_logger_type2p (q_qtype q)) @ '' '') b
                 else Inr b) (\<lambda>b.
          rbind (if q_has_qclass q
                 then add_text (''qclass: '' @ fmt_s (pdns_logger_class2p (q_qclass q)) @ '' '') b
                 else Inr b) (\<lambda>b.
          add_text (''qname: '' @ fmt_s (q_qname q) @ '' '') b)))"

definition logfile_response :: "dnsresponse \<Rightarrow> line_buf \<Rightarrow> line_buf res" where
  "logfile_response r b =
     rbind (if r_has_rcode r
            then add_text (''rcode: '' @ fmt_s (pdns_logger_rcode2p (r_rcode r)) @ '' '') b
            else Inr b) (\<lambda>b.
     rbind (add_text (''rrcount: '' @ dec (length (r_rrs r)) @ '' '') b) (\<lambda>b.
     if \<not> zstr (r_appliedpolicy r)
     then add_text (''policy: '' @ [CHR 0x27] @ fmt_s (r_appliedpolicy r) @ [CHR 0x27] @ '' '') b
     else Inr b))"

definition logfile_head :: "bool \<Rightarrow> pbdnsmessage \<Rightarrow> dnsresponse \<Rightarrow> line_buf \<Rightarrow> line_buf res" where
  "logfile_head ndebug m r b =
     rbind (if m_has_id m then add_text (''QID: '' @ fmt_d (m_id m) @ '' '') b else Inr b) (\<lambda>b.
     rbind (logfile_from m b) (\<lambda>b.
     rbind (if m_has_originalrequestorsubnet m then assert0 ndebug b else Inr b) (\<lambda>b.
     rbind (logfile_question (m_question m) b) (\<lambda>b.
     logfile_response r b))))"

definition logfile_rdata :: "u32 \<Rightarrow> dnsrr \<Rightarrow> line_buf \<Rightarrow> line_buf res" where
  "logfile_rdata t rr b =
     (if rr_has_rdata rr then
        (if rr_has_type rr \<and> rr_type rr = 1 \<and> bd_len (rr_rdata rr) = 4 then
           rbind (bd_read 4 (rr_rdata rr))
             (\<lambda>a. add_text (''rdata-'' @ fmt_d t @ '': '' @ inet_ntop4 a @ '' '') b)
         else if rr_has_type rr \<and> rr_type rr = 28 \<and> bd_len (rr_rdata rr) = 16 then
           rbind (bd_read 16 (rr_rdata rr))
             (\<lambda>a. add_text (''rdata-'' @ fmt_d t @ '': '' @ inet_ntop6 a @ '' '') b)
         else if rr_has_type rr \<and> (rr_type rr = 2 \<or> rr_type rr = 5 \<or> rr_type rr = 6 \<or> rr_type rr = 15) then
           rbind (bd_as_cstring (rr_rdata rr))
             (\<lambda>d. add_text (''rdata-'' @ fmt_d t @ '': '' @ fmt_s d @ '' '') b)
         else add_text ''rdata (not supported) '' b)
      else Inr b)"

definition logfile_rr :: "u32 \<Rightarrow> dnsrr \<Rightarrow> line_buf \<Rightarrow> line_buf res" where
  "logfile_rr t rr b =
     rbind (add_text (''rname-'' @ fmt_d t @ '': '' @ fmt_s (rr_name rr) @ '' '') b) (\<lambda>b.
     rbind (if rr_has_type rr
            then add_text (''rtype-'' @ fmt_d t @ '': '' @ fmt_s (pdns_logger_type2p (rr_type rr)) @ '' '') b
            else Inr b) (\<lambda>b.
     rbind (if rr_has_class rr
            then add_text (''rclass-'' @ fmt_d t @ '': '' @ fmt_s (pdns_logger_class2p (rr_class rr)) @ '' '') b
            else Inr b) (\<lambda>b.
     rbind (if rr_has_ttl rr
            then add_text (''rttl-'' @ fmt_d t @ '': '' @ fmt_d (rr_ttl rr) @ '' '') b
            else Inr b) (\<lambda>b.
     logfile_rdata t rr b))))"

fun logfile_rrs :: "(string \<Rightarrow> nat) \<Rightarrow> u32 \<Rightarrow> dnsrr list \<Rightarrow> line_buf \<Rightarrow> logfile \<Rightarrow> logfile res" where
  "logfile_rrs spill t [] b s = Inr s"
| "logfile_rrs spill t (rr # rrs) b s =
     rbind (logfile_rr t rr b) (\<lambda>b.
     rbind (logfile_write_log spill (lb_str b) s)
       (logfile_rrs spill (t + 1) rrs b))"

definition logfile_log ::
  "(string \<Rightarrow> nat) \<Rightarrow> bool \<Rightarrow> pbdnsmessage option \<Rightarrow> logfile \<Rightarrow> (pdns_status \<times> logfile) res" where
  "logfile_log spill ndebug msg s =
     (if lf_disabled s then Inr (PDNS_OK, s)
      else case msg of
        None \<Rightarrow> Inr (PDNS_OK, s)
      | Some m \<Rightarrow>
          (case m_response m of
             None \<Rightarrow> Inr (PDNS_OK, s)
           | Some r \<Rightarrow>
               if lf_rewrites_only s \<and> zstr (r_appliedpolicy r) then Inr (PDNS_OK, s)
               else
                 rbind (logfile_head ndebug m r line_buf_init) (\<lambda>b.
                 rbind (if 0 < length (r_rrs r) then logfile_rrs spill 1 (r_rrs r) b s
                        else logfile_write_log spill (lb_str b) s) (\<lambda>s'.
                 Inr (PDNS_OK, s')))))"

section \<open>The backend keeps the contract\<close>

definition set_logfile :: "string \<Rightarrow> string \<Rightarrow> logfile \<Rightarrow> logfile" where
  "set_logfile n v s =
     (if n = [] \<or> v = [] then s
      else if n = ''logfile'' then s\<lparr>lf_file := Some v\<rparr>
      else if n = ''force-flush'' then s\<lparr>force_flush := (atoi v \<noteq> 0)\<rparr>
      else if n = ''only-rewrites'' then s\<lparr>lf_rewrites_only := (atoi v \<noteq> 0)\<rparr>
      else if n = ''disabled'' then s\<lparr>lf_disabled := (atoi v \<noteq> 0)\<rparr>
      else s)"

interpretation logfile_ini: section_handler logfile_opt_handler "''logfile''" set_logfile
  by unfold_locales (simp_all add: logfile_opt_handler_def set_logfile_def)

lemma logfile_init_file:
  assumes "f \<noteq> []" "fs f = Some cfg" "ini_syntax_error cfg = 0"
    and "s' = fold (\<lambda>(n, v). set_logfile n v) (section_settings ''logfile'' cfg) s"
  shows "logfile_init fs (Some f) s =
    Some (if lf_disabled s' then (PDNS_OK, s')
          else if zstr (lf_file s') then (PDNS_NO, s')
          else case fopen_append (the (lf_file s')) (lf_disk s') of (p, d) \<Rightarrow>
            (if p = Fp_Null then PDNS_NO else PDNS_OK, s'\<lparr>fp := p, lf_disk := d\<rparr>))"
  using assms by (simp add: logfile_init_def ini_parse_def logfile_ini.parse_file_own section_settings_def)

text \<open>Where a line ends up: in the buffer and on disk, all of it on disk with \<^verbatim>\<open>force_flush\<close>.\<close>

definition logfile_put :: "(string \<Rightarrow> nat) \<Rightarrow> string \<Rightarrow> logfile \<Rightarrow> logfile" where
  "logfile_put spill l s =
     (case fp s of
        Fp_Open i buf \<Rightarrow>
          (let txt = buf @ l @ [newline]; n = if force_flush s then length txt else spill txt
           in s\<lparr>fp := Fp_Open i (drop n txt), lf_disk := append_to i (take n txt) (lf_disk s)\<rparr>)
      | _ \<Rightarrow> s)"

lemma append_to_append: "append_to i y (append_to i x d) = append_to i (x @ y) d"
  by (simp add: append_to_def)

lemma logfile_write_log_put:
  "fp s \<noteq> Fp_Closed \<Longrightarrow> logfile_write_log spill l s = Inr (logfile_put spill l s)"
  by (cases "fp s")
    (simp_all add: logfile_write_log_def logfile_put_def fprintf_def fflush_def Let_def append_to_append
      del: take_append drop_append)

lemma logfile_head_texts:
  assumes "msg_wf m" "m_has_originalrequestorsubnet m \<longrightarrow> nd"
  shows "logfile_head nd m r b = rfold add_text (head_texts m r) b"
proof -
  have f: "logfile_from m b = rfold add_text (from_texts m) b" for b
    using assms(1) by (auto simp: logfile_from_def from_texts_def msg_wf_def bd_read_wf)
  have q: "logfile_question q b = rfold add_text (case q of None \<Rightarrow> [] | Some q \<Rightarrow> question_texts q) b" for q b
    by (auto simp: logfile_question_def question_texts_def split: option.split)
  have r: "logfile_response r b = rfold add_text (response_texts r) b" for b
    by (auto simp: logfile_response_def response_texts_def)
  have "(if m_has_originalrequestorsubnet m then assert0 nd b else Inr b) = Inr b" for b :: line_buf
    using assms(2) by auto
  then show ?thesis
    by (simp add: logfile_head_def head_texts_def rfold_append_action f q r)
qed

lemma logfile_head_subnet:
  assumes "msg_wf m" "m_has_originalrequestorsubnet m"
  shows "logfile_head False m r line_buf_init = Inl Assert_Failed"
proof -
  have "length (''QID: '' @ fmt_d (m_id m) @ '' '') < LINE_SIZE"
    using length_fmt_d [of "m_id m"] by (simp add: LINE_SIZE_def)
  moreover have "0 < LINE_SIZE" by (simp add: LINE_SIZE_def)
  ultimately obtain a where
    q: "(if m_has_id m then add_text (''QID: '' @ fmt_d (m_id m) @ '' '') line_buf_init else Inr line_buf_init) =
      Inr (line_buf_of a)" and a: "length a < LINE_SIZE"
    by (cases "m_has_id m") (simp_all add: line_buf_init_of add_text_room del: append_Cons append.append_Cons)
  have "\<exists>b. logfile_from m (line_buf_of a) = Inr b"
    using assms(1) a by (simp add: logfile_from_def msg_wf_def bd_read_wf add_text_room)
  then obtain b where "logfile_from m (line_buf_of a) = Inr b" by blast
  with q show ?thesis using assms(2) by (simp add: logfile_head_def)
qed

lemma bd_as_cstring_printable:
  assumes "rr_printable rr" "rr_has_rdata rr" "name_type rr"
  obtains s where "bd_as_cstring (rr_rdata rr) = Inr s"
  using assms by (auto simp: rr_printable_def bd_as_cstring_def split: option.splits)

lemma logfile_rdata_texts:
  assumes "rr_wf rr" "rr_printable rr"
  shows "logfile_rdata t rr b = rfold add_text (rdata_texts t rr) b"
proof (cases "rr_has_rdata rr \<and> name_type rr")
  case True
  then obtain s where "bd_as_cstring (rr_rdata rr) = Inr s"
    using assms(2) bd_as_cstring_printable by blast
  with True assms(1) show ?thesis
    by (auto simp: logfile_rdata_def rdata_texts_def name_type_def rr_wf_def bd_read_wf)
next
  case False
  with assms(1) show ?thesis
    by (auto simp: logfile_rdata_def rdata_texts_def name_type_def rr_wf_def bd_read_wf)
qed

lemma logfile_rr_texts:
  assumes "rr_wf rr" "rr_printable rr"
  shows "logfile_rr t rr b = rfold add_text (rr_texts t rr) b"
  using assms by (auto simp: logfile_rr_def rr_texts_def rfold_append_action logfile_rdata_texts)

lemma if_flip: "(if \<not> c then x else y) = (if c then y else x)"
  by simp

lemma logfile_log_selected:
  "logfile_log spill nd msg s =
     (if msg_selected (lf_disabled s) (lf_rewrites_only s) msg
      then let m = the msg; r = the (m_response m)
           in rbind (logfile_head nd m r line_buf_init)
                (\<lambda>b. rbind (if r_rrs r = [] then logfile_write_log spill (lb_str b) s
                             else logfile_rrs spill 1 (r_rrs r) b s)
                       (\<lambda>s'. Inr (PDNS_OK, s')))
      else Inr (PDNS_OK, s))"
  by (cases msg; cases "m_response (the msg)")
    (simp_all add: logfile_log_def msg_selected_def Let_def if_flip cong: if_cong)

interpretation logfile_text: text_backend
  logfile_head logfile_rr "logfile_rrs spill" "logfile_write_log spill" "logfile_log spill"
  "\<lambda>s. fp s \<noteq> Fp_Closed" "logfile_put spill" lf_disabled lf_rewrites_only
  for spill
proof unfold_locales
  show "fp (logfile_put spill l s) \<noteq> Fp_Closed" if "fp s \<noteq> Fp_Closed" for l s
    using that by (cases "fp s") (simp_all add: logfile_put_def Let_def)
qed (simp_all add: logfile_head_texts logfile_head_subnet logfile_rr_texts logfile_write_log_put
      logfile_log_selected)

section \<open>What reaches the file\<close>

definition log_text :: "string list \<Rightarrow> string" where
  "log_text ls = concat (map (\<lambda>l. l @ [newline]) ls)"

text \<open>
  After lines went through an open stream: the stream is on the same inode, only that inode
  grew, and what it holds followed by what is buffered is the old text followed by the lines.
\<close>

definition took :: "string \<Rightarrow> logfile \<Rightarrow> logfile \<Rightarrow> bool" where
  "took txt s s' =
     (case fp s of
        Fp_Open i buf \<Rightarrow>
          (\<exists>now later. buf @ txt = now @ later \<and>
             s' = s\<lparr>fp := Fp_Open i later, lf_disk := append_to i now (lf_disk s)\<rparr> \<and>
             (force_flush s \<and> txt \<noteq> [] \<longrightarrow> later = []))
      | _ \<Rightarrow> s' = s)"

lemma took_Nil: "took [] s s"
proof (cases "fp s")
  case (Fp_Open i buf)
  then have eq: "s = s\<lparr>fp := Fp_Open i buf, lf_disk := append_to i [] (lf_disk s)\<rparr>"
    by (cases s) (simp add: append_to_def)
  show ?thesis
    unfolding took_def Fp_Open file_ptr.case
    by (rule exI [of _ "[]"], rule exI [of _ buf], intro conjI, simp, rule eq, simp)
qed (simp_all add: took_def)

lemma took_put: "took (l @ [newline]) s (logfile_put spill l s)"
proof (cases "fp s")
  case (Fp_Open i buf)
  define n where "n = (if force_flush s then length (buf @ l @ [newline]) else spill (buf @ l @ [newline]))"
  have "took (l @ [newline]) s
      (s\<lparr>fp := Fp_Open i (drop n (buf @ l @ [newline])), lf_disk := append_to i (take n (buf @ l @ [newline])) (lf_disk s)\<rparr>)"
    unfolding took_def Fp_Open file_ptr.case
    by (intro exI [of _ "take n (buf @ l @ [newline])"] exI [of _ "drop n (buf @ l @ [newline])"])
      (auto simp: n_def simp del: take_append drop_append)
  with Fp_Open show ?thesis by (simp add: logfile_put_def Let_def n_def del: take_append drop_append)
qed (simp_all add: took_def logfile_put_def)

lemma took_trans:
  assumes "took x s t" "took y t u"
  shows "took (x @ y) s u"
proof (cases "fp s")
  case (Fp_Open i buf)
  with assms(1) obtain now later where 1: "buf @ x = now @ later"
    "t = s\<lparr>fp := Fp_Open i later, lf_disk := append_to i now (lf_disk s)\<rparr>"
    "force_flush s \<and> x \<noteq> [] \<longrightarrow> later = []"
    by (auto simp: took_def)
  with assms(2) obtain now' later' where 2: "later @ y = now' @ later'"
    "u = t\<lparr>fp := Fp_Open i later', lf_disk := append_to i now' (lf_disk t)\<rparr>"
    "force_flush s \<and> y \<noteq> [] \<longrightarrow> later' = []"
    by (auto simp: took_def)
  have "buf @ x @ y = (now @ now') @ later'" using 1(1) 2(1) by (metis append.assoc)
  moreover have "force_flush s \<and> x @ y \<noteq> [] \<longrightarrow> later' = []" using 1(3) 2 by auto
  ultimately show ?thesis
    using Fp_Open 1(2) 2(2)
    by (simp add: took_def append_to_append) (intro exI [of _ "now @ now'"] exI [of _ later'], simp)
qed (use assms in \<open>auto simp: took_def\<close>)

lemma took_fold: "took (log_text ls) s (fold (logfile_put spill) ls s)"
proof (induction ls arbitrary: s)
  case Nil
  show ?case by (simp add: log_text_def took_Nil)
next
  case (Cons l ls)
  show ?case
    using took_trans [OF took_put Cons.IH] by (simp add: log_text_def)
qed

text \<open>
  C17. Logging to the file. For a well-formed, printable message that passes the filters, with the
  stream open: when its texts fit the line buffer, \<^verbatim>\<open>logfile_log\<close> succeeds, touches nothing but the
  stream and its inode, and the old text of the file, followed by the lines of the message, is
  what file and buffer hold together; with \<^verbatim>\<open>force-flush\<close> nothing stays in the buffer.
\<close>

theorem logfile_log_appends:
  assumes "msg_selected (lf_disabled s) (lf_rewrites_only s) (Some m)" "m_response m = Some r"
    and "msg_wf m" "msg_printable nd m" "fp s = Fp_Open i buf"
    and "texts_fit 0 (message_texts m r)" "int (length (concat (message_texts m r))) < 2 ^ 31"
  shows "\<exists>now later.
      buf @ log_text (message_lines m r) = now @ later \<and>
      logfile_log spill nd (Some m) s =
        Inr (PDNS_OK, s\<lparr>fp := Fp_Open i later, lf_disk := append_to i now (lf_disk s)\<rparr>) \<and>
      (force_flush s \<longrightarrow> later = [])"
proof -
  have "log_text (message_lines m r) \<noteq> []"
    using message_lines_length [of m r] by (cases "message_lines m r") (auto simp: log_text_def)
  moreover have "took (log_text (message_lines m r)) s (fold (logfile_put spill) (message_lines m r) s)"
    by (rule took_fold)
  ultimately show ?thesis
    using logfile_text.log_lines [OF assms(1-4) _ assms(7), of spill] assms(5,6)
    by (auto simp: took_def)
qed

definition example_disk :: disk where
  "example_disk = \<lparr>names = [''log'' \<mapsto> 0], contents = (\<lambda>_. []), fresh = 1, writable = (\<lambda>_. True)\<rparr>"

definition example_logfile :: logfile where
  "example_logfile = (logfile_static example_disk)\<lparr>fp := Fp_Open 0 [], lf_file := Some ''log''\<rparr>"

lemma example_logfile_ok [simp]:
  "lf_disabled example_logfile = False" "lf_rewrites_only example_logfile"
  "fp example_logfile = Fp_Open 0 []" "force_flush example_logfile = False"
  "lf_file example_logfile = Some ''log''" "lf_disk example_logfile = example_disk"
  by (simp_all add: example_logfile_def logfile_static_def)

theorem logfile_log_appends_witness:
  "\<exists>now later.
      [] @ log_text (message_lines example_msg example_response) = now @ later \<and>
      logfile_log (\<lambda>_. 0) False (Some example_msg) example_logfile =
        Inr (PDNS_OK, example_logfile\<lparr>fp := Fp_Open 0 later, lf_disk := append_to 0 now (lf_disk example_logfile)\<rparr>) \<and>
      (force_flush example_logfile \<longrightarrow> later = [])"
  by (rule logfile_log_appends) (simp_all only: example_logfile_ok example_ok example_fits)

text \<open>
  C18. The line buffer of 1024 bytes overflows exactly when the texts do not fit: as soon as a
  text follows after 1024 or more characters were asked for, the remaining room is negative and
  \<^verbatim>\<open>strncat\<close> is called with a huge bound.
\<close>

theorem logfile_log_overflow_iff:
  assumes "msg_selected (lf_disabled s) (lf_rewrites_only s) (Some m)" "m_response m = Some r"
    and "msg_wf m" "msg_printable nd m" "fp s \<noteq> Fp_Closed"
    and "int (length (concat (message_texts m r))) < 2 ^ 31"
  shows "logfile_log spill nd (Some m) s = Inl Buffer_Overflow \<longleftrightarrow> \<not> texts_fit 0 (message_texts m r)"
  using logfile_text.log_lines [OF assms, of spill] by simp

theorem logfile_log_overflow_iff_witness:
  "(logfile_log (\<lambda>_. 0) True (Some long_msg) example_logfile = Inl Buffer_Overflow \<longleftrightarrow>
     \<not> texts_fit 0 (message_texts long_msg long_response)) \<and>
   \<not> texts_fit 0 (message_texts long_msg long_response)"
proof
  show "logfile_log (\<lambda>_. 0) True (Some long_msg) example_logfile = Inl Buffer_Overflow \<longleftrightarrow>
     \<not> texts_fit 0 (message_texts long_msg long_response)"
    by (rule logfile_log_overflow_iff) (simp_all only: example_logfile_ok long_ok example_fits file_ptr.distinct not_False_eq_True)
qed (rule example_fits(3))

text \<open>
  C34. The lines of one message: as many as it has records, at least one, none longer than 1023
  characters, and each repeating the whole of the line before it, since the buffer is never
  emptied between records.
\<close>

theorem logfile_log_lines_grow:
  assumes "msg_selected (lf_disabled s) (lf_rewrites_only s) (Some m)" "m_response m = Some r"
    and "msg_wf m" "msg_printable nd m" "fp s \<noteq> Fp_Closed"
    and "texts_fit 0 (message_texts m r)" "int (length (concat (message_texts m r))) < 2 ^ 31"
  shows "\<exists>ls. logfile_log spill nd (Some m) s = Inr (PDNS_OK, fold (logfile_put spill) ls s) \<and>
      length ls = max 1 (length (r_rrs r)) \<and> list_all (\<lambda>l. length l < 1024) ls \<and> sorted_wrt prefix ls"
proof -
  have "list_all (\<lambda>l. length l < 1024) (message_lines m r)"
    using message_lines_bounded [of _ m r] by (auto simp: list_all_iff LINE_SIZE_def)
  then show ?thesis
    using logfile_text.log_lines [OF assms(1-5,7), of spill] assms(6)
      message_lines_length message_lines_prefixes by auto
qed

theorem logfile_log_lines_grow_witness:
  "\<exists>ls. logfile_log (\<lambda>_. 0) False (Some example_msg) example_logfile =
        Inr (PDNS_OK, fold (logfile_put (\<lambda>_. 0)) ls example_logfile) \<and>
      length ls = max 1 (length (r_rrs example_response)) \<and> list_all (\<lambda>l. length l < 1024) ls \<and> sorted_wrt prefix ls"
  by (rule logfile_log_lines_grow)
    (simp_all only: example_logfile_ok example_ok example_fits file_ptr.distinct not_False_eq_True)

section \<open>Runs of the backend\<close>

text \<open>Logging one message after the other, with the status dropped as the caller drops it.\<close>

definition logfile_log_all :: "(string \<Rightarrow> nat) \<Rightarrow> bool \<Rightarrow> pbdnsmessage list \<Rightarrow> logfile \<Rightarrow> logfile res" where
  "logfile_log_all spill nd = rfold (\<lambda>m s. rbind (logfile_log spill nd (Some m) s) (\<lambda>(st, s'). Inr s'))"

definition logged_lines :: "bool \<Rightarrow> bool \<Rightarrow> pbdnsmessage \<Rightarrow> string list" where
  "logged_lines off rewr m =
     (if msg_selected off rewr (Some m) then message_lines m (the (m_response m)) else [])"

definition loggable :: "bool \<Rightarrow> bool \<Rightarrow> bool \<Rightarrow> pbdnsmessage \<Rightarrow> bool" where
  "loggable nd off rewr m =
     (msg_selected off rewr (Some m) \<longrightarrow>
        msg_wf m \<and> msg_printable nd m \<and>
        (let txts = message_texts m (the (m_response m))
         in texts_fit 0 txts \<and> int (length (concat txts)) < 2 ^ 31))"

lemma took_keeps:
  assumes "took txt s s'"
  shows "lf_disabled s' = lf_disabled s" "lf_rewrites_only s' = lf_rewrites_only s"
    "lf_file s' = lf_file s" "force_flush s' = force_flush s" "fp s' = Fp_Closed \<longleftrightarrow> fp s = Fp_Closed"
  using assms by (cases "fp s"; auto simp: took_def)+

lemma logfile_log_took:
  assumes "loggable nd (lf_disabled s) (lf_rewrites_only s) m" "fp s \<noteq> Fp_Closed"
  shows "\<exists>s'. logfile_log spill nd (Some m) s = Inr (PDNS_OK, s') \<and>
     took (log_text (logged_lines (lf_disabled s) (lf_rewrites_only s) m)) s s'"
proof (cases "msg_selected (lf_disabled s) (lf_rewrites_only s) (Some m)")
  case True
  then obtain r where r: "m_response m = Some r" by (auto simp: msg_selected_def split: option.splits)
  with True assms show ?thesis
    using logfile_text.log_lines [OF True r, of nd spill] took_fold
    by (auto simp: loggable_def logged_lines_def Let_def)
next
  case False
  then show ?thesis
    using logfile_text.log_skip [OF False, of spill nd] took_Nil
    by (simp add: logged_lines_def log_text_def)
qed

lemma logfile_log_all_took:
  assumes "list_all (loggable nd (lf_disabled s) (lf_rewrites_only s)) ms" "fp s \<noteq> Fp_Closed"
  shows "\<exists>s'. logfile_log_all spill nd ms s = Inr s' \<and>
    took (log_text (concat (map (logged_lines (lf_disabled s) (lf_rewrites_only s)) ms))) s s'"
  using assms
proof (induction ms arbitrary: s)
  case Nil
  show ?case by (simp add: logfile_log_all_def log_text_def took_Nil)
next
  case (Cons m ms)
  then obtain s1 where s1: "logfile_log spill nd (Some m) s = Inr (PDNS_OK, s1)"
    "took (log_text (logged_lines (lf_disabled s) (lf_rewrites_only s) m)) s s1"
    using logfile_log_took [of nd s m spill] by auto
  moreover obtain s2 where "logfile_log_all spill nd ms s1 = Inr s2"
    "took (log_text (concat (map (logged_lines (lf_disabled s) (lf_rewrites_only s)) ms))) s1 s2"
    using Cons.IH [of s1] Cons.prems by (auto simp: took_keeps [OF s1(2)])
  ultimately show ?case
    using took_trans [OF s1(2)] by (auto simp: logfile_log_all_def log_text_def)
qed

text \<open>What a log rotation tool does before it signals the daemon: rename the file.\<close>

definition rename_file :: "string \<Rightarrow> string \<Rightarrow> disk \<Rightarrow> disk" where
  "rename_file p q d = d\<lparr>names := (names d)(q := names d p, p := None)\<rparr>"

lemma logfile_rotate_renamed:
  assumes "fp s = Fp_Open i buf" "lf_file s = Some p" "names (lf_disk s) p = Some i" "p \<noteq> q"
    and "writable (lf_disk s) p" "i < fresh (lf_disk s)"
  shows "\<exists>s'. logfile_rotate (s\<lparr>lf_disk := rename_file p q (lf_disk s)\<rparr>) = Inr (PDNS_OK, s') \<and>
    fp s' = Fp_Open (fresh (lf_disk s)) [] \<and> lf_disabled s' = lf_disabled s \<and>
    lf_rewrites_only s' = lf_rewrites_only s \<and>
    names (lf_disk s') p = Some (fresh (lf_disk s)) \<and> names (lf_disk s') q = Some i \<and>
    contents (lf_disk s') = (contents (lf_disk s))(i := contents (lf_disk s) i @ buf, fresh (lf_disk s) := [])"
  using assms
  by (simp add: logfile_rotate_def freopen_append_def fclose_def fflush_def fopen_append_def
      append_to_def rename_file_def)

text \<open>
  C19. Log rotation loses and mixes nothing: the messages logged before the file is renamed and
  the daemon rotates end up, complete, in the renamed file, whatever was still buffered; those
  logged afterwards go to a new file under the configured name.
\<close>

theorem logfile_rotation_splits:
  assumes "list_all (loggable nd (lf_disabled s) (lf_rewrites_only s)) (ms @ ms')"
    and "fp s = Fp_Open i buf" "lf_file s = Some p" "names (lf_disk s) p = Some i" "p \<noteq> q"
    and "writable (lf_disk s) p" "i < fresh (lf_disk s)"
  shows "\<exists>s1 s2 s3 j later.
    logfile_log_all spill nd ms s = Inr s1 \<and>
    logfile_rotate (s1\<lparr>lf_disk := rename_file p q (lf_disk s1)\<rparr>) = Inr (PDNS_OK, s2) \<and>
    logfile_log_all spill nd ms' s2 = Inr s3 \<and>
    names (lf_disk s3) q = Some i \<and>
    contents (lf_disk s3) i =
      contents (lf_disk s) i @ buf @
      log_text (concat (map (logged_lines (lf_disabled s) (lf_rewrites_only s)) ms)) \<and>
    fp s3 = Fp_Open j later \<and> names (lf_disk s3) p = Some j \<and>
    contents (lf_disk s3) j @ later =
      log_text (concat (map (logged_lines (lf_disabled s) (lf_rewrites_only s)) ms'))"
proof -
  obtain s1 where s1: "logfile_log_all spill nd ms s = Inr s1"
    "took (log_text (concat (map (logged_lines (lf_disabled s) (lf_rewrites_only s)) ms))) s s1"
    using logfile_log_all_took [of nd s ms spill] assms(1,2) by auto
  then obtain now later where t1: "buf @ log_text (concat (map (logged_lines (lf_disabled s) (lf_rewrites_only s)) ms)) = now @ later"
    "s1 = s\<lparr>fp := Fp_Open i later, lf_disk := append_to i now (lf_disk s)\<rparr>"
    using assms(2) by (auto simp: took_def)
  obtain s2 where s2: "logfile_rotate (s1\<lparr>lf_disk := rename_file p q (lf_disk s1)\<rparr>) = Inr (PDNS_OK, s2)"
    "fp s2 = Fp_Open (fresh (lf_disk s1)) []" "lf_disabled s2 = lf_disabled s1"
    "lf_rewrites_only s2 = lf_rewrites_only s1"
    "names (lf_disk s2) p = Some (fresh (lf_disk s1))" "names (lf_disk s2) q = Some i"
    "contents (lf_disk s2) = (contents (lf_disk s1))(i := contents (lf_disk s1) i @ later, fresh (lf_disk s1) := [])"
    using logfile_rotate_renamed [of s1 i later p q] assms t1(2) by (auto simp: append_to_def)
  obtain s3 where s3: "logfile_log_all spill nd ms' s2 = Inr s3"
    "took (log_text (concat (map (logged_lines (lf_disabled s) (lf_rewrites_only s)) ms'))) s2 s3"
    using logfile_log_all_took [of nd s2 ms' spill] assms(1) s2(2,3,4) t1(2) by auto
  then obtain now' later' where
    t3: "log_text (concat (map (logged_lines (lf_disabled s) (lf_rewrites_only s)) ms')) = now' @ later'"
    "s3 = s2\<lparr>fp := Fp_Open (fresh (lf_disk s1)) later', lf_disk := append_to (fresh (lf_disk s1)) now' (lf_disk s2)\<rparr>"
    using s2(2) by (auto simp: took_def)
  have "fresh (lf_disk s1) = fresh (lf_disk s)" using t1(2) by (simp add: append_to_def)
  with assms(7) have "i \<noteq> fresh (lf_disk s1)" by simp
  with s2(7) t1 t3 have "contents (lf_disk s3) i =
      contents (lf_disk s) i @ buf @ log_text (concat (map (logged_lines (lf_disabled s) (lf_rewrites_only s)) ms))"
    by (simp add: append_to_def)
  moreover have "contents (lf_disk s3) (fresh (lf_disk s1)) @ later' =
      log_text (concat (map (logged_lines (lf_disabled s) (lf_rewrites_only s)) ms'))"
    using s2(7) t3 by (simp add: append_to_def)
  moreover have "names (lf_disk s3) p = Some (fresh (lf_disk s1))" "names (lf_disk s3) q = Some i"
    "fp s3 = Fp_Open (fresh (lf_disk s1)) later'"
    using s2(5,6) t3(2) by (simp_all add: append_to_def)
  ultimately show ?thesis using s1(1) s2(1) s3(1) by blast
qed

theorem logfile_rotation_splits_witness:
  "\<exists>s1 s2 s3 j later.
    logfile_log_all (\<lambda>_. 0) True [example_msg] example_logfile = Inr s1 \<and>
    logfile_rotate (s1\<lparr>lf_disk := rename_file ''log'' ''log.1'' (lf_disk s1)\<rparr>) = Inr (PDNS_OK, s2) \<and>
    logfile_log_all (\<lambda>_. 0) True [example_msg, pbdnsmessage__init] s2 = Inr s3 \<and>
    names (lf_disk s3) ''log.1'' = Some 0 \<and>
    contents (lf_disk s3) 0 =
      contents (lf_disk example_logfile) 0 @ [] @
      log_text (concat (map (logged_lines (lf_disabled example_logfile) (lf_rewrites_only example_logfile)) [example_msg])) \<and>
    fp s3 = Fp_Open j later \<and> names (lf_disk s3) ''log'' = Some j \<and>
    contents (lf_disk s3) j @ later =
      log_text (concat (map (logged_lines (lf_disabled example_logfile) (lf_rewrites_only example_logfile))
        [example_msg, pbdnsmessage__init]))"
proof (rule logfile_rotation_splits)
  have "\<not> msg_selected False True (Some pbdnsmessage__init)" by (simp add: msg_selected_def pb_init_defs)
  then show "list_all (loggable True (lf_disabled example_logfile) (lf_rewrites_only example_logfile))
      ([example_msg] @ [example_msg, pbdnsmessage__init])"
    using example_ok example_fits by (simp add: loggable_def Let_def)
qed (simp_all add: example_disk_def)

text \<open>
  A rotation that cannot open the file again: the old file gets everything that was buffered,
  the failure is reported once, and from then on the backend accepts every loggable message with
  success and writes none of them.
\<close>

lemma logfile_rotation_failure:
  assumes "fp s = Fp_Open i buf" "lf_file s = Some p" "\<not> writable (lf_disk s) p"
    and "list_all (loggable nd (lf_disabled s) (lf_rewrites_only s)) ms"
  shows "\<exists>s'. logfile_rotate s = Inr (PDNS_NO, s') \<and> fp s' = Fp_Null \<and>
    lf_disk s' = append_to i buf (lf_disk s) \<and> logfile_log_all spill nd ms s' = Inr s'"
proof -
  define s' where "s' = s\<lparr>fp := Fp_Null, lf_disk := append_to i buf (lf_disk s)\<rparr>"
  have "logfile_rotate s = Inr (PDNS_NO, s')"
    using assms(1-3)
    by (simp add: s'_def logfile_rotate_def freopen_append_def fclose_def fflush_def fopen_append_def
        append_to_def)
  moreover have "logfile_log_all spill nd ms s' = Inr s'"
    using logfile_log_all_took [of nd s' ms spill] assms(4) by (auto simp: s'_def took_def)
  ultimately show ?thesis by (auto simp: s'_def)
qed

text \<open>
  Stopping the backend writes out everything buffered and forgets the file name, but keeps the
  pointer to the closed stream: logging a message that has lines, or rotating, afterwards uses
  closed memory.
\<close>

lemma logfile_stop_spec:
  assumes "fp s = Fp_Open i buf" "msg_selected (lf_disabled s) (lf_rewrites_only s) (Some m)"
    and "loggable nd (lf_disabled s) (lf_rewrites_only s) m"
  shows "\<exists>s'. logfile_stop s = Inr (PDNS_OK, s') \<and> lf_disk s' = append_to i buf (lf_disk s) \<and>
    lf_file s' = None \<and> logfile_log spill nd (Some m) s' = Inl Use_After_Free \<and>
    logfile_rotate s' = Inl Use_After_Free"
proof -
  define s' where "s' = s\<lparr>lf_file := None, fp := Fp_Closed, lf_disk := append_to i buf (lf_disk s)\<rparr>"
  obtain r where r: "m_response m = Some r" using assms(2) by (auto simp: msg_selected_def split: option.splits)
  have wf: "msg_wf m" "msg_printable nd m" "texts_fit 0 (message_texts m r)"
    "int (length (concat (message_texts m r))) < 2 ^ 31"
    using assms(2,3) r by (auto simp: loggable_def Let_def)
  have fit: "texts_fit 0 (head_texts m r)" using wf(3) by (simp add: message_texts_def texts_fit_append)
  have h: "logfile_head nd m r line_buf_init = Inr (line_buf_of (concat (head_texts m r)))"
    using add_texts [of "head_texts m r" "[]"] wf fit texts_not_empty(1)
    by (simp add: logfile_head_texts msg_printable_def line_buf_init_of message_texts_def)
  have w: "logfile_write_log spill l s' = Inl Use_After_Free" for l
    by (simp add: logfile_write_log_def fprintf_def s'_def)
  have "logfile_rrs spill 1 (rr # rrs) (line_buf_of (concat (head_texts m r))) s' = Inl Use_After_Free"
    if rrs: "r_rrs r = rr # rrs" for rr rrs
  proof -
    have "logfile_rr 1 rr (line_buf_of (concat (head_texts m r))) =
        Inr (line_buf_of (concat (head_texts m r) @ concat (rr_texts 1 rr)))"
      using wf rrs r
      by (simp add: logfile_rr_texts msg_wf_def msg_printable_def add_texts texts_not_empty
          message_texts_def texts_fit_append)
    then show ?thesis by (simp add: w)
  qed
  then have "logfile_log spill nd (Some m) s' = Inl Use_After_Free"
    using assms(2) r h w by (cases "r_rrs r") (simp_all add: logfile_log_selected s'_def Let_def)
  moreover have "logfile_stop s = Inr (PDNS_OK, s')"
    using assms(1) by (simp add: logfile_stop_def fclose_def fflush_def Let_def s'_def)
  moreover have "logfile_rotate s' = Inl Use_After_Free"
    by (simp add: logfile_rotate_def freopen_append_def fflush_def s'_def)
  ultimately show ?thesis by (auto simp: s'_def)
qed

end
