(* ===== verification/Syslog.thy ===== *)
theory Syslog
  imports Logfile
begin

text \<open>
  The syslog backend, \<^verbatim>\<open>src/pdns-logger-syslog.c\<close>: the facility table, its settings and
  \<^verbatim>\<open>syslog_log\<close>. The system log is the list of records the C library is handed. The texts of a
  message are written by code of its own, proved equal to that of the file backend.
\<close>

section \<open>Facilities\<close>

text \<open>The values of \<^verbatim>\<open>LOG_AUTH\<close> and the others are those of \<^verbatim>\<open>syslog.h\<close>: a code shifted left by three.\<close>

record facility_name =
  fac_facility :: nat
  fac_name :: string

definition facility :: "nat \<Rightarrow> string \<Rightarrow> facility_name" where
  "facility code nm = \<lparr>fac_facility = push_bit 3 code, fac_name = nm\<rparr>"

definition LOG_DAEMON :: nat where
  "LOG_DAEMON = push_bit 3 3"

definition LOG_USER :: nat where
  "LOG_USER = push_bit 3 1"

definition LOG_NOTICE :: nat where
  "LOG_NOTICE = 5"

definition facility_names :: "facility_name list" where
  "facility_names = [
     facility 4 ''auth'', facility 10 ''authpriv'', facility 9 ''cron'', facility 3 ''daemon'',
     facility 11 ''ftp'', facility 0 ''kern'', facility 16 ''local0'', facility 17 ''local1'',
     facility 18 ''local2'', facility 19 ''local3'', facility 20 ''local4'', facility 21 ''local5'',
     facility 22 ''local6'', facility 23 ''local7'', facility 6 ''lpr'', facility 2 ''mail'',
     facility 7 ''news'', facility 5 ''syslog'', facility 1 ''user'', facility 8 ''uucp'']"

text \<open>
  The loop over the table; the result is the return value and what is stored through the pointer. The only
  caller passes the address of a local variable, so the test of the pointer for NULL is left out.
\<close>

fun facility_loop :: "facility_name list \<Rightarrow> string \<Rightarrow> int \<times> nat" where
  "facility_loop [] nfacility = (0, LOG_DAEMON)"
| "facility_loop (f # fs) nfacility =
     (if strncmp_eq (length (fac_name f) + 1) (fac_name f) nfacility then (1, fac_facility f)
      else facility_loop fs nfacility)"

definition logfacility_lookup :: "string \<Rightarrow> int \<times> nat" where
  "logfacility_lookup nfacility = facility_loop facility_names nfacility"

section \<open>State and settings\<close>

record syslog_record =
  sl_ident :: string
  sl_priority :: nat
  sl_text :: string

text \<open>
  The statics, and the state of the system log in the C library: the identification set by
  \<^verbatim>\<open>openlog\<close> and forgotten by \<^verbatim>\<open>closelog\<close>, the facility of the last \<^verbatim>\<open>openlog\<close>, and the records so far.
\<close>

record syslog =
  sys_ident :: string
  sys_facility :: string
  sys_rewrites_only :: bool
  sys_disabled :: bool
  sys_tag :: cstring
  sys_logfac :: nat
  sys_records :: "syslog_record list"

definition syslog_static :: syslog where
  "syslog_static =
     \<lparr>sys_ident = ''pdns-logger'', sys_facility = ''daemon'', sys_rewrites_only = True,
      sys_disabled = False, sys_tag = None, sys_logfac = LOG_USER, sys_records = []\<rparr>"

definition syslog_opt_handler :: "syslog ini_handler" where
  "syslog_opt_handler s section name value lineno =
     (if zstr (Some section) \<or> zstr (Some name) \<or> zstr (Some value) then (True, s)
      else if str_eq_lit section ''syslog'' then
        (if str_eq_lit name ''ident'' then (True, s)
         else if str_eq_lit name ''facility'' then (True, s)
         else if str_eq_lit name ''level'' then (True, s)
         else if str_eq_lit name ''only-rewrites'' then (True, s\<lparr>sys_rewrites_only := (atoi value \<noteq> 0)\<rparr>)
         else if str_eq_lit name ''disabled'' then (True, s\<lparr>sys_disabled := (atoi value \<noteq> 0)\<rparr>)
         else (True, s))
      else (True, s))"

definition syslog_init :: "(string \<rightharpoonup> string) \<Rightarrow> cstring \<Rightarrow> syslog \<Rightarrow> (pdns_status \<times> syslog) option" where
  "syslog_init fs inifile s =
     (if zstr inifile then Some (PDNS_NO, s)
      else map_option (\<lambda>(err, s').
             if err \<noteq> 0 then (PDNS_NO, s')
             else if sys_disabled s' then (PDNS_OK, s')
             else let logf = snd (logfacility_lookup (sys_facility s'));
                      ident = (if \<not> zstr (Some (sys_ident s')) then sys_ident s' else ''pdns-logger'')
                  in (PDNS_OK, s'\<lparr>sys_tag := Some ident, sys_logfac := logf\<rparr>))
           (ini_parse fs (the inifile) syslog_opt_handler s))"

definition syslog_rotate :: "syslog \<Rightarrow> pdns_status \<times> syslog" where
  "syslog_rotate s = (PDNS_OK, s)"

definition syslog_stop :: "syslog \<Rightarrow> pdns_status \<times> syslog" where
  "syslog_stop s = (PDNS_OK, s\<lparr>sys_tag := None\<rparr>)"

section \<open>Logging a message\<close>

text \<open>
  \<^verbatim>\<open>syslog(LOG_NOTICE, "%s", str)\<close>: a record with the identification and facility in force; without
  an identification the library uses the program name.
\<close>

definition syslog_write_log :: "string \<Rightarrow> syslog \<Rightarrow> syslog" where
  "syslog_write_log str s =
     s\<lparr>sys_records := sys_records s @
         [\<lparr>sl_ident = (case sys_tag s of None \<Rightarrow> ''pdns-logger'' | Some t \<Rightarrow> t),
           sl_priority = sys_logfac s + LOG_NOTICE, sl_text = str\<rparr>]\<rparr>"

definition syslog_from :: "pbdnsmessage \<Rightarrow> line_buf \<Rightarrow> line_buf res" where
  "syslog_from m b =
     (if m_has_from m then
        (if bd_len (m_from m) = 4 then
           rbind (bd_read 4 (m_from m)) (\<lambda>a. add_text (''from: '' @ inet_ntop4 a @ '' '') b)
         else if bd_len (m_from m) = 16 then
           rbind (bd_read 16 (m_from m)) (\<lambda>a. add_text (''from: '' @ inet_ntop6 a @ '' '') b)
         else Inr b)
      else Inr b)"

definition syslog_question :: "dnsquestion option \<Rightarrow> line_buf \<Rightarrow> line_buf res" where
  "syslog_question q b =
     (case q of
        None \<Rightarrow> Inr b
      | Some q \<Rightarrow>
          rbind (if q_has_qtype q
                 then add_text (''qtype: '' @ fmt_s (pdns_logger_type2p (q_qtype q)) @ '' '') b
                 else Inr b) (\<lambda>b.
          rbind (if q_has_qclass q
                 then add_text (''qclass: '' @ fmt_s (pdns_logger_class2p (q_qclass q)) @ '' '') b
                 else Inr b) (\<lambda>b.
          add_text (''qname: '' @ fmt_s (q_qname q) @ '' '') b)))"

definition syslog_response :: "dnsresponse \<Rightarrow> line_buf \<Rightarrow> line_buf res" where
  "syslog_response r b =
     rbind (if r_has_rcode r
            then add_text (''rcode: '' @ fmt_s (pdns_logger_rcode2p (r_rcode r)) @ '' '') b
            else Inr b) (\<lambda>b.
     rbind (add_text (''rrcount: '' @ dec (length (r_rrs r)) @ '' '') b) (\<lambda>b.
     if \<not> zstr (r_appliedpolicy r)
     then add_text (''policy: '' @ [CHR 0x27] @ fmt_s (r_appliedpolicy r) @ [CHR 0x27] @ '' '') b
     else Inr b))"

definition syslog_head :: "bool \<Rightarrow> pbdnsmessage \<Rightarrow> dnsresponse \<Rightarrow> line_buf \<Rightarrow> line_buf res" where
  "syslog_head ndebug m r b =
     rbind (if m_has_id m then add_text (''QID: '' @ fmt_d (m_id m) @ '' '') b else Inr b) (\<lambda>b.
     rbind (syslog_from m b) (\<lambda>b.
     rbind (if m_has_originalrequestorsubnet m then assert0 ndebug b else Inr b) (\<lambda>b.
     rbind (syslog_question (m_question m) b) (\<lambda>b.
     syslog_response r b))))"

definition syslog_rdata :: "u32 \<Rightarrow> dnsrr \<Rightarrow> line_buf \<Rightarrow> line_buf res" where
  "syslog_rdata t rr b =
     (if rr_has_rdata rr then
        (if rr_has_type rr \<and> rr_type rr = 1 \<and> bd_len (rr_rdata rr) = 4 then
           rbind (bd_read 4 (rr_rdata rr))
             (\<lambda>a. add_text (''rdata-'' @ fmt_d t @ '': '' @ inet_ntop4 a @ '' '') b)
         else if rr_has_type rr \<and> rr_type rr = 28 \<and> bd_len (rr_rdata rr) = 16 then
           rbind (bd_read 16 (rr_rdata rr))
             (\<lambda>a. add_text (''rdata-'' @ fmt_d t @ '': '' @ inet_ntop6 a @ '' '') b)
         else if rr_has_type rr \<and> (rr_type rr = 2 \<or> rr_type rr = 5 \<or> rr_type rr = 6 \<or> rr_type rr = 15) then
           rbind (bd_as_cstring (rr_rdata rr))
             (\<lambda>d. add_text (''rdata-'' @ fmt_d t @ '': '' @ fmt_s d @ '' '') b)
         else add_text ''rdata (not supported) '' b)
      else Inr b)"

definition syslog_rr :: "u32 \<Rightarrow> dnsrr \<Rightarrow> line_buf \<Rightarrow> line_buf res" where
  "syslog_rr t rr b =
     rbind (add_text (''rname-'' @ fmt_d t @ '': '' @ fmt_s (rr_name rr) @ '' '') b) (\<lambda>b.
     rbind (if rr_has_type rr
            then add_text (''rtype-'' @ fmt_d t @ '': '' @ fmt_s (pdns_logger_type2p (rr_type rr)) @ '' '') b
            else Inr b) (\<lambda>b.
     rbind (if rr_has_class rr
            then add_text (''rclass-'' @ fmt_d t @ '': '' @ fmt_s (pdns_logger_class2p (rr_class rr)) @ '' '') b
            else Inr b) (\<lambda>b.
     rbind (if rr_has_ttl rr
            then add_text (''rttl-'' @ fmt_d t @ '': '' @ fmt_d (rr_ttl rr) @ '' '') b
            else Inr b) (\<lambda>b.
     syslog_rdata t rr b))))"

fun syslog_rrs :: "u32 \<Rightarrow> dnsrr list \<Rightarrow> line_buf \<Rightarrow> syslog \<Rightarrow> syslog res" where
  "syslog_rrs t [] b s = Inr s"
| "syslog_rrs t (rr # rrs) b s =
     rbind (syslog_rr t rr b) (\<lambda>b.
     syslog_rrs (t + 1) rrs b (syslog_write_log (lb_str b) s))"

definition syslog_log :: "bool \<Rightarrow> pbdnsmessage option \<Rightarrow> syslog \<Rightarrow> (pdns_status \<times> syslog) res" where
  "syslog_log ndebug msg s =
     (if sys_disabled s then Inr (PDNS_OK, s)
      else case msg of
        None \<Rightarrow> Inr (PDNS_OK, s)
      | Some m \<Rightarrow>
          (case m_response m of
             None \<Rightarrow> Inr (PDNS_OK, s)
           | Some r \<Rightarrow>
               if sys_rewrites_only s \<and> zstr (r_appliedpolicy r) then Inr (PDNS_OK, s)
               else
                 rbind (syslog_head ndebug m r line_buf_init) (\<lambda>b.
                 rbind (if 0 < length (r_rrs r) then syslog_rrs 1 (r_rrs r) b s
                        else Inr (syslog_write_log (lb_str b) s)) (\<lambda>s'.
                 Inr (PDNS_OK, s')))))"

section \<open>The backend keeps the contract\<close>

definition set_syslog :: "string \<Rightarrow> string \<Rightarrow> syslog \<Rightarrow> syslog" where
  "set_syslog n v s =
     (if n = [] \<or> v = [] then s
      else if n = ''only-rewrites'' then s\<lparr>sys_rewrites_only := (atoi v \<noteq> 0)\<rparr>
      else if n = ''disabled'' then s\<lparr>sys_disabled := (atoi v \<noteq> 0)\<rparr>
      else s)"

interpretation syslog_ini: section_handler syslog_opt_handler "''syslog''" set_syslog
  by unfold_locales (simp_all add: syslog_opt_handler_def set_syslog_def)

lemma syslog_texts_eq: "syslog_head = logfile_head" "syslog_rr = logfile_rr"
proof -
  have f: "syslog_from = logfile_from" by (simp add: fun_eq_iff syslog_from_def logfile_from_def)
  have q: "syslog_question = logfile_question"
    by (simp add: fun_eq_iff syslog_question_def logfile_question_def)
  have r: "syslog_response = logfile_response"
    by (simp add: fun_eq_iff syslog_response_def logfile_response_def)
  have d: "syslog_rdata = logfile_rdata" by (simp add: fun_eq_iff syslog_rdata_def logfile_rdata_def)
  show "syslog_head = logfile_head" by (simp add: fun_eq_iff syslog_head_def logfile_head_def f q r)
  show "syslog_rr = logfile_rr" by (simp add: fun_eq_iff syslog_rr_def logfile_rr_def d)
qed

lemma syslog_log_selected:
  "syslog_log nd msg s =
     (if msg_selected (sys_disabled s) (sys_rewrites_only s) msg
      then let m = the msg; r = the (m_response m)
           in rbind (syslog_head nd m r line_buf_init)
                (\<lambda>b. rbind (if r_rrs r = [] then Inr (syslog_write_log (lb_str b) s)
                             else syslog_rrs 1 (r_rrs r) b s)
                       (\<lambda>s'. Inr (PDNS_OK, s')))
      else Inr (PDNS_OK, s))"
  by (cases msg; cases "m_response (the msg)")
    (simp_all add: syslog_log_def msg_selected_def Let_def if_flip cong: if_cong)

interpretation syslog_text: text_backend
  syslog_head syslog_rr syslog_rrs "\<lambda>l s. Inr (syslog_write_log l s)" syslog_log
  "\<lambda>s. True" syslog_write_log sys_disabled sys_rewrites_only
  by unfold_locales
    (simp_all add: syslog_texts_eq logfile_head_texts logfile_head_subnet logfile_rr_texts syslog_log_selected)

section \<open>The two text backends agree\<close>

text \<open>
  Whatever the message, the two backends stop for the same reason or write the same lines. The
  record loops differ only in where a line goes.
\<close>

lemma rrs_agree:
  assumes "fp f \<noteq> Fp_Closed"
  shows "(\<exists>e. logfile_rrs spill t rrs b f = Inl e \<and> syslog_rrs t rrs b s = Inl e) \<or>
    (\<exists>ls. logfile_rrs spill t rrs b f = Inr (fold (logfile_put spill) ls f) \<and>
          syslog_rrs t rrs b s = Inr (fold syslog_write_log ls s))"
  using assms
proof (induction rrs arbitrary: t b f s)
  case Nil
  have "logfile_rrs spill t [] b f = Inr (fold (logfile_put spill) [] f) \<and>
      syslog_rrs t [] b s = Inr (fold syslog_write_log [] s)" by simp
  then show ?case by blast
next
  case (Cons rr rrs)
  show ?case
  proof (cases "logfile_rr t rr b")
    case (Inl e)
    then show ?thesis by (simp add: syslog_texts_eq)
  next
    case (Inr b')
    let ?f = "logfile_put spill (lb_str b') f" and ?s = "syslog_write_log (lb_str b') s"
    have step: "logfile_rrs spill t (rr # rrs) b f = logfile_rrs spill (t + 1) rrs b' ?f"
      "syslog_rrs t (rr # rrs) b s = syslog_rrs (t + 1) rrs b' ?s"
      using Inr Cons.prems by (simp_all add: syslog_texts_eq logfile_write_log_put)
    have "fp ?f \<noteq> Fp_Closed" using Cons.prems logfile_text.put_ready by blast
    from Cons.IH [OF this, of "t + 1" b' ?s] show ?thesis
    proof (elim disjE exE conjE)
      fix ls
      assume "logfile_rrs spill (t + 1) rrs b' ?f = Inr (fold (logfile_put spill) ls ?f)"
        "syslog_rrs (t + 1) rrs b' ?s = Inr (fold syslog_write_log ls ?s)"
      with step show ?thesis by (intro disjI2 exI [of _ "lb_str b' # ls"]) simp
    qed (use step in auto)
  qed
qed

text \<open>
  C22. The file and the syslog backend share one format. With the same filters, on every message
  whatever its content, either both stop for the same reason or both succeed and write the same
  lines in the same order.
\<close>

theorem syslog_agrees_with_logfile:
  assumes "sys_disabled s = lf_disabled f" "sys_rewrites_only s = lf_rewrites_only f" "fp f \<noteq> Fp_Closed"
  shows "(\<exists>e. logfile_log spill nd msg f = Inl e \<and> syslog_log nd msg s = Inl e) \<or>
    (\<exists>ls. logfile_log spill nd msg f = Inr (PDNS_OK, fold (logfile_put spill) ls f) \<and>
          syslog_log nd msg s = Inr (PDNS_OK, fold syslog_write_log ls s))"
proof (cases "msg_selected (lf_disabled f) (lf_rewrites_only f) msg")
  case True
  define m r where "m = the msg" and "r = the (m_response m)"
  note sel = logfile_log_selected [of spill nd msg f] syslog_log_selected [of nd msg s]
  show ?thesis
  proof (cases "logfile_head nd m r line_buf_init")
    case (Inl e)
    with True assms sel show ?thesis by (simp add: m_def r_def Let_def syslog_texts_eq)
  next
    case (Inr b)
    show ?thesis
    proof (cases "r_rrs r")
      case Nil
      with True assms sel Inr show ?thesis
        by (intro disjI2 exI [of _ "[lb_str b]"])
          (simp add: m_def r_def Let_def syslog_texts_eq logfile_write_log_put)
    next
      case (Cons rr rrs)
      then have log: "logfile_log spill nd msg f = rbind (logfile_rrs spill 1 (r_rrs r) b f) (\<lambda>s'. Inr (PDNS_OK, s'))"
        "syslog_log nd msg s = rbind (syslog_rrs 1 (r_rrs r) b s) (\<lambda>s'. Inr (PDNS_OK, s'))"
        using True assms sel Inr by (simp_all add: m_def r_def Let_def syslog_texts_eq)
      from rrs_agree [OF assms(3), of spill 1 "r_rrs r" b s] log show ?thesis by auto
    qed
  qed
next
  case False
  then show ?thesis
    using assms logfile_log_selected [of spill nd msg f] syslog_log_selected [of nd msg s]
    by (intro disjI2 exI [of _ "[]"]) simp
qed

theorem syslog_agrees_with_logfile_witness:
  "(\<exists>e. logfile_log (\<lambda>_. 0) True (Some long_msg) example_logfile = Inl e \<and>
        syslog_log True (Some long_msg) syslog_static = Inl e) \<or>
    (\<exists>ls. logfile_log (\<lambda>_. 0) True (Some long_msg) example_logfile =
            Inr (PDNS_OK, fold (logfile_put (\<lambda>_. 0)) ls example_logfile) \<and>
          syslog_log True (Some long_msg) syslog_static = Inr (PDNS_OK, fold syslog_write_log ls syslog_static))"
  by (rule syslog_agrees_with_logfile) (simp_all add: syslog_static_def)

section \<open>Facility and identification\<close>

lemma facility_loop_find:
  "facility_loop fs n =
     (case find (\<lambda>f. fac_name f = n) fs of None \<Rightarrow> (0, LOG_DAEMON) | Some f \<Rightarrow> (1, fac_facility f))"
proof (induction fs)
  case (Cons f fs)
  have "strncmp_eq (length (fac_name f) + 1) (fac_name f) n \<longleftrightarrow> fac_name f = n"
  proof -
    have "strncmp_eq (length a + 1) a b \<longleftrightarrow> a = b" for a b
    proof (induction a arbitrary: b)
      case Nil
      show ?case by (cases b) simp_all
    next
      case (Cons x a)
      then show ?case by (cases b) auto
    qed
    then show ?thesis .
  qed
  with Cons.IH show ?case by simp
qed simp

text \<open>
  The facility table is looked up by exact name: a known name gives 1 and its facility, any
  other gives 0 and \<^verbatim>\<open>LOG_DAEMON\<close>; all names are different, so every entry can be found.
\<close>

lemma logfacility_lookup_spec:
  "distinct (map fac_name facility_names) \<and>
   (\<forall>n. logfacility_lookup n =
      (case map_of (map (\<lambda>f. (fac_name f, fac_facility f)) facility_names) n of
         None \<Rightarrow> (0, LOG_DAEMON) | Some f \<Rightarrow> (1, f)))"
proof
  show "distinct (map fac_name facility_names)" by (simp add: facility_names_def facility_def)
  have "map_of (map (\<lambda>f. (fac_name f, fac_facility f)) fs) n =
      map_option fac_facility (find (\<lambda>f. fac_name f = n) fs)" for fs :: "facility_name list" and n
    by (induction fs) auto
  then show "\<forall>n. logfacility_lookup n =
      (case map_of (map (\<lambda>f. (fac_name f, fac_facility f)) facility_names) n of
         None \<Rightarrow> (0, LOG_DAEMON) | Some f \<Rightarrow> (1, f))"
    by (simp add: logfacility_lookup_def facility_loop_find split: option.split)
qed

lemma set_syslog_keeps:
  "sys_ident (fold (\<lambda>(n, v). set_syslog n v) ps s) = sys_ident s"
  "sys_facility (fold (\<lambda>(n, v). set_syslog n v) ps s) = sys_facility s"
  "sys_records (fold (\<lambda>(n, v). set_syslog n v) ps s) = sys_records s"
proof -
  have one: "sys_ident (set_syslog n v s) = sys_ident s" "sys_facility (set_syslog n v s) = sys_facility s"
    "sys_records (set_syslog n v s) = sys_records s" for n v s
    by (simp_all add: set_syslog_def)
  show "sys_ident (fold (\<lambda>(n, v). set_syslog n v) ps s) = sys_ident s"
    "sys_facility (fold (\<lambda>(n, v). set_syslog n v) ps s) = sys_facility s"
    "sys_records (fold (\<lambda>(n, v). set_syslog n v) ps s) = sys_records s"
    by (induction ps arbitrary: s) (auto simp: one)
qed

lemma facility_daemon: "logfacility_lookup ''daemon'' = (1, LOG_DAEMON)"
  by (simp add: logfacility_lookup_def facility_loop_find facility_names_def facility_def LOG_DAEMON_def)

text \<open>
  C36. The settings \<^verbatim>\<open>ident\<close>, \<^verbatim>\<open>facility\<close> and \<^verbatim>\<open>level\<close> have no effect: whatever the configuration file says,
  once the backend has started from its initial state it is disabled or it logs as \<^verbatim>\<open>pdns-logger\<close>
  to the facility \<^verbatim>\<open>daemon\<close>, so that every line it writes has the priority \<^verbatim>\<open>daemon.notice\<close> (29).
\<close>

theorem syslog_settings_ignored:
  assumes "syslog_init fs (Some f) syslog_static = Some (PDNS_OK, s)" "\<not> sys_disabled s"
    and "f \<noteq> []"
  shows "sys_tag s = Some ''pdns-logger'' \<and> sys_logfac s = LOG_DAEMON \<and>
    sys_records (syslog_write_log l s) = [\<lparr>sl_ident = ''pdns-logger'', sl_priority = 29, sl_text = l\<rparr>]"
proof -
  obtain cfg where cfg: "fs f = Some cfg"
    using assms(1,3) by (cases "fs f") (auto simp: syslog_init_def ini_parse_def)
  define s1 where "s1 = fold (\<lambda>(n, v). set_syslog n v) (section_settings ''syslog'' cfg) syslog_static"
  have "syslog_init fs (Some f) syslog_static =
      Some (if ini_syntax_error cfg \<noteq> 0 then (PDNS_NO, s1)
            else if sys_disabled s1 then (PDNS_OK, s1)
            else (PDNS_OK, s1\<lparr>sys_tag := Some ''pdns-logger'', sys_logfac := LOG_DAEMON\<rparr>))"
    using assms(3) cfg set_syslog_keeps(1,2) [of "section_settings ''syslog'' cfg" syslog_static] facility_daemon
    by (simp add: syslog_init_def ini_parse_def syslog_ini.parse_file_own section_settings_def [symmetric]
        s1_def [symmetric] Let_def) (simp add: s1_def syslog_static_def)
  with assms(1,2) have "s = s1\<lparr>sys_tag := Some ''pdns-logger'', sys_logfac := LOG_DAEMON\<rparr>"
    by (auto split: if_splits)
  moreover have "sys_records s1 = []"
    using set_syslog_keeps(3) [of "section_settings ''syslog'' cfg" syslog_static]
    by (simp add: s1_def syslog_static_def)
  ultimately show ?thesis by (simp add: syslog_write_log_def LOG_DAEMON_def LOG_NOTICE_def)
qed

definition facility_doc :: "(string \<times> (string \<times> string) list) list" where
  "facility_doc = [(''syslog'', [(''facility'', ''local0''), (''ident'', ''dns'')])]"

theorem syslog_settings_ignored_witness:
  "let fs = [''f'' \<mapsto> print_ini facility_doc]; s = snd (the (syslog_init fs (Some ''f'') syslog_static))
   in sys_tag s = Some ''pdns-logger'' \<and> sys_logfac s = LOG_DAEMON \<and>
      sys_records (syslog_write_log ''x'' s) = [\<lparr>sl_ident = ''pdns-logger'', sl_priority = 29, sl_text = ''x''\<rparr>]"
proof -
  have "doc_ok facility_doc"
    by (simp add: facility_doc_def doc_ok_def section_ok_def pair_ok_def plain_text_def stripped_def
        find_chars_or_comment_def MAX_SECTION_def INI_MAX_LINE_def isspace_def)
  then have "section_settings ''syslog'' (print_ini facility_doc) = [(''facility'', ''local0''), (''ident'', ''dns'')]"
    "ini_syntax_error (print_ini facility_doc) = 0"
    by (simp_all add: print_ini_settings) (simp add: facility_doc_def)
  then obtain s where s: "syslog_init [''f'' \<mapsto> print_ini facility_doc] (Some ''f'') syslog_static = Some (PDNS_OK, s)"
    "\<not> sys_disabled s"
    by (simp add: syslog_init_def ini_parse_def syslog_ini.parse_file_own section_settings_def [symmetric]
        Let_def syslog_static_def set_syslog_def)
  from syslog_settings_ignored [OF this, of "''x''"] s(1) show ?thesis by (simp add: Let_def)
qed

end
