(* ===== verification/Fifo.thy ===== *)
theory Fifo
  imports Prelude
begin

text \<open>
  The queue of \<^verbatim>\<open>src/pdns-logger-queue.c\<close>: a pointer-linked list of items with head and tail
  pointers, guarded by a recursive mutex, with a condition variable to wake the consumer. The
  items live in an explicit store of cells; a fresh cell has an uninitialised \<^verbatim>\<open>next\<close> pointer, as
  memory from \<^verbatim>\<open>malloc\<close> has. The second half shows what the code implements: a slot for one item.
\<close>

section \<open>Mutexes\<close>

text \<open>A POSIX mutex: the thread that owns it and how often it has locked it.\<close>

record mutex =
  owner :: "nat option"
  depth :: nat

definition mutex_init :: mutex where
  "mutex_init = \<lparr>owner = None, depth = 0\<rparr>"

text \<open>\<^verbatim>\<open>PTHREAD_MUTEX_RECURSIVE\<close>: the owner may lock again; any other thread blocks.\<close>

definition mutex_lock_recursive :: "nat \<Rightarrow> mutex \<Rightarrow> mutex res" where
  "mutex_lock_recursive t m =
     (if owner m = None \<or> owner m = Some t
      then Inr \<lparr>owner = Some t, depth = Suc (depth m)\<rparr>
      else Inl Would_Block)"

definition mutex_unlock :: "nat \<Rightarrow> mutex \<Rightarrow> mutex" where
  "mutex_unlock t m =
     (if owner m = Some t
      then \<lparr>owner = (if depth m \<le> 1 then None else Some t), depth = depth m - 1\<rparr>
      else m)"

text \<open>The default mutex: locking it while anyone holds it blocks.\<close>

definition mutex_lock_normal :: "nat \<Rightarrow> mutex \<Rightarrow> mutex res" where
  "mutex_lock_normal t m =
     (if owner m = None then Inr \<lparr>owner = Some t, depth = 1\<rparr> else Inl Would_Block)"

section \<open>The queue and its cells\<close>

datatype link = Uninit | Link "nat option"

record 'a fifo_item =
  item_data :: 'a
  item_next :: link

record 'a fifo =
  fifo_mutex :: mutex
  sync_mutex :: mutex
  sync_signals :: nat \<comment> \<open>how often \<^verbatim>\<open>sync_cond\<close> was signalled\<close>
  fifo_head :: "nat option"
  fifo_tail :: "nat option"
  fifo_heap :: "nat \<rightharpoonup> 'a fifo_item" \<comment> \<open>the allocated cells\<close>
  fifo_brk :: nat \<comment> \<open>the next address \<^verbatim>\<open>malloc\<close> hands out\<close>

definition fifo_empty :: "'a fifo" where
  "fifo_empty =
     \<lparr>fifo_mutex = mutex_init, sync_mutex = mutex_init, sync_signals = 0,
      fifo_head = None, fifo_tail = None, fifo_heap = Map.empty, fifo_brk = 0\<rparr>"

text \<open>\<open>alloc\<close> tells whether \<^verbatim>\<open>malloc\<close> succeeds. A queue that could not be allocated is NULL.\<close>

definition fifo_init :: "bool \<Rightarrow> 'a fifo option" where
  "fifo_init alloc = (if alloc then Some fifo_empty else None)"

section \<open>Waiting and signalling\<close>

record timespec =
  tv_sec :: int
  tv_nsec :: int

text \<open>The deadline \<^verbatim>\<open>fifo_wait_signal\<close> computes from \<^verbatim>\<open>time(NULL)\<close> and \<^verbatim>\<open>tv.tv_usec\<close>.\<close>

definition wait_deadline :: "int \<Rightarrow> int \<Rightarrow> timespec" where
  "wait_deadline now usec =
     (let msw = 1000;
          sec = now + msw div 1000;
          nsec = usec * 1000 + 1000 * 1000 * (msw mod 1000)
      in \<lparr>tv_sec = sec + nsec div (1000 * 1000 * 1000), tv_nsec = nsec mod (1000 * 1000 * 1000)\<rparr>)"

text \<open>
  The timed wait gives the mutex up while it sleeps and holds it again when it returns, whether
  it was signalled or timed out; the caller does not look at which.
\<close>

definition fifo_wait_signal :: "nat \<Rightarrow> 'a fifo \<Rightarrow> 'a fifo res" where
  "fifo_wait_signal t f =
     rbind (mutex_lock_normal t (sync_mutex f)) (\<lambda>m.
       Inr (f\<lparr>sync_mutex := mutex_unlock t m\<rparr>))"

definition fifo_send_signal :: "nat \<Rightarrow> 'a fifo \<Rightarrow> 'a fifo res" where
  "fifo_send_signal t f =
     rbind (mutex_lock_normal t (sync_mutex f)) (\<lambda>m.
       Inr (f\<lparr>sync_signals := Suc (sync_signals f), sync_mutex := mutex_unlock t m\<rparr>))"

section \<open>Push and pop\<close>

definition fifo_push ::
  "bool \<Rightarrow> bool \<Rightarrow> nat \<Rightarrow> 'a fifo option \<Rightarrow> 'a option \<Rightarrow> ('a fifo option \<times> pdns_status) res" where
  "fifo_push nd alloc t fifo value =
     (case (fifo, value) of
        (Some f, Some v) \<Rightarrow>
          if alloc then
            let item = fifo_brk f;
                f1 = f\<lparr>fifo_heap := (fifo_heap f)(item \<mapsto> \<lparr>item_data = v, item_next = Uninit\<rparr>),
                       fifo_brk := Suc item\<rparr>
            in rbind (mutex_lock_recursive t (fifo_mutex f1)) (\<lambda>m.
               let f2 = f1\<lparr>fifo_mutex := m\<rparr> in
               rbind
                 (if fifo_tail f2 = None \<and> fifo_head f2 = None
                  then Inr (f2\<lparr>fifo_head := Some item, fifo_tail := Some item\<rparr>)
                  else if fifo_tail f2 \<noteq> None \<or> fifo_head f2 \<noteq> None
                  then assert0 nd f2
                  else Inr (f2\<lparr>fifo_heap := (fifo_heap f2)
                                 (item \<mapsto> \<lparr>item_data = v, item_next = Link (fifo_head f2)\<rparr>),
                               fifo_head := Some item\<rparr>))
                 (\<lambda>f3. Inr (Some (f3\<lparr>fifo_mutex := mutex_unlock t (fifo_mutex f3)\<rparr>), PDNS_OK)))
          else Inr (fifo, PDNS_NO)
      | _ \<Rightarrow> Inr (fifo, PDNS_NO))"

text \<open>Reading \<^verbatim>\<open>item->next\<close>: through NULL, through a freed cell, or before it was written.\<close>

definition read_next :: "'a fifo \<Rightarrow> nat option \<Rightarrow> nat option res" where
  "read_next f p =
     (case p of
        None \<Rightarrow> Inl Null_Deref
      | Some a \<Rightarrow>
          (case fifo_heap f a of
             None \<Rightarrow> Inl Use_After_Free
           | Some it \<Rightarrow> (case item_next it of Uninit \<Rightarrow> Inl Uninit_Read | Link n \<Rightarrow> Inr n)))"

definition fifo_pop :: "nat \<Rightarrow> 'a fifo option \<Rightarrow> ('a fifo option \<times> 'a option) res" where
  "fifo_pop t fifo =
     (case fifo of
        None \<Rightarrow> Inr (None, None)
      | Some f \<Rightarrow>
          rbind (mutex_lock_recursive t (fifo_mutex f)) (\<lambda>m.
            let f1 = f\<lparr>fifo_mutex := m\<rparr> in
            rbind
              (if fifo_head f1 = None \<and> fifo_tail f1 = None then Inr (f1, None)
               else if fifo_head f1 \<noteq> None \<and> fifo_tail f1 = fifo_head f1
               then Inr (f1\<lparr>fifo_head := None, fifo_tail := None\<rparr>, fifo_head f1)
               else rbind (read_next f1 (fifo_head f1)) (\<lambda>n.
                      Inr (f1\<lparr>fifo_head := n\<rparr>, fifo_head f1)))
              (\<lambda>(f2, item).
                 let f3 = f2\<lparr>fifo_mutex := mutex_unlock t (fifo_mutex f2)\<rparr> in
                 case item of
                   None \<Rightarrow> Inr (Some f3, None)
                 | Some a \<Rightarrow>
                     (case fifo_heap f3 a of
                        None \<Rightarrow> Inl Use_After_Free
                      | Some it \<Rightarrow>
                          Inr (Some (f3\<lparr>fifo_heap := (fifo_heap f3)(a := None)\<rparr>),
                               Some (item_data it))))))"

definition fifo_push_item ::
  "bool \<Rightarrow> bool \<Rightarrow> nat \<Rightarrow> 'a fifo option \<Rightarrow> 'a option \<Rightarrow> ('a fifo option \<times> pdns_status) res" where
  "fifo_push_item nd alloc t fifo data =
     (if fifo = None \<or> data = None then Inr (fifo, PDNS_NO)
      else rbind (fifo_push nd alloc t fifo data) (\<lambda>(fifo', st).
             if st = PDNS_OK
             then (case fifo' of
                     None \<Rightarrow> Inl Null_Deref
                   | Some f \<Rightarrow> rbind (fifo_send_signal t f) (\<lambda>f'. Inr (Some f', PDNS_OK)))
             else Inr (fifo', PDNS_NO)))"

definition fifo_pop_item :: "nat \<Rightarrow> 'a fifo option \<Rightarrow> ('a fifo option \<times> 'a option) res" where
  "fifo_pop_item t fifo =
     (case fifo of
        None \<Rightarrow> Inr (None, None)
      | Some f \<Rightarrow> rbind (fifo_wait_signal t f) (\<lambda>f'. fifo_pop t (Some f')))"

definition fifo_lock :: "nat \<Rightarrow> 'a fifo option \<Rightarrow> 'a fifo option res" where
  "fifo_lock t fifo =
     (case fifo of
        None \<Rightarrow> Inr None
      | Some f \<Rightarrow> rbind (mutex_lock_recursive t (fifo_mutex f)) (\<lambda>m. Inr (Some (f\<lparr>fifo_mutex := m\<rparr>))))"

definition fifo_unlock :: "nat \<Rightarrow> 'a fifo option \<Rightarrow> 'a fifo option" where
  "fifo_unlock t fifo = map_option (\<lambda>f. f\<lparr>fifo_mutex := mutex_unlock t (fifo_mutex f)\<rparr>) fifo"

section \<open>The invariant\<close>

text \<open>
  Between calls both mutexes are free, head and tail are the same pointer, and that pointer is
  NULL or a live cell; every live cell has been handed out by the allocator.
\<close>

definition fifo_wf :: "'a fifo \<Rightarrow> bool" where
  "fifo_wf f \<longleftrightarrow>
     fifo_mutex f = mutex_init \<and> sync_mutex f = mutex_init \<and> fifo_tail f = fifo_head f \<and>
     (\<forall>a. fifo_head f = Some a \<longrightarrow> fifo_heap f a \<noteq> None) \<and>
     (\<forall>a it. fifo_heap f a = Some it \<longrightarrow> a < fifo_brk f)"

definition fifo_content :: "'a fifo \<Rightarrow> 'a option" where
  "fifo_content f =
     (case fifo_head f of None \<Rightarrow> None | Some a \<Rightarrow> map_option item_data (fifo_heap f a))"

definition fifo_put :: "'a \<Rightarrow> 'a fifo \<Rightarrow> 'a fifo" where
  "fifo_put v f =
     f\<lparr>fifo_heap := (fifo_heap f)(fifo_brk f \<mapsto> \<lparr>item_data = v, item_next = Uninit\<rparr>),
       fifo_brk := Suc (fifo_brk f), sync_signals := Suc (sync_signals f)\<rparr>"

lemma mutex_cycle:
  "mutex_lock_recursive t mutex_init = Inr \<lparr>owner = Some t, depth = Suc 0\<rparr>"
  "mutex_lock_normal t mutex_init = Inr \<lparr>owner = Some t, depth = Suc 0\<rparr>"
  "mutex_unlock t \<lparr>owner = Some t, depth = Suc 0\<rparr> = mutex_init"
  by (simp_all add: mutex_lock_recursive_def mutex_lock_normal_def mutex_unlock_def mutex_init_def)

lemma fifo_wf_empty: "fifo_wf fifo_empty" "fifo_content fifo_empty = None"
  by (simp_all add: fifo_wf_def fifo_empty_def fifo_content_def)

lemma fifo_wf_content_None_iff: "fifo_wf f \<Longrightarrow> fifo_content f = None \<longleftrightarrow> fifo_head f = None"
  by (auto simp: fifo_wf_def fifo_content_def split: option.splits)

lemma fifo_push_item_empty:
  assumes "fifo_wf f" "fifo_content f = None"
  shows "fifo_push_item nd True t (Some f) (Some v) =
    Inr (Some ((fifo_put v f)\<lparr>fifo_head := Some (fifo_brk f), fifo_tail := Some (fifo_brk f)\<rparr>), PDNS_OK)"
proof -
  have "fifo_head f = None" using assms by (simp add: fifo_wf_content_None_iff)
  then show ?thesis
    using assms(1)
    by (cases f) (simp add: fifo_wf_def fifo_push_item_def fifo_push_def fifo_send_signal_def mutex_cycle
        fifo_put_def Let_def)
qed

lemma fifo_push_item_full:
  assumes "fifo_wf f" "fifo_content f \<noteq> None"
  shows "fifo_push_item nd True t (Some f) (Some v) =
    (if nd then Inr (Some (fifo_put v f), PDNS_OK) else Inl Assert_Failed)"
proof -
  have "fifo_head f \<noteq> None" using assms by (simp add: fifo_wf_content_None_iff)
  then show ?thesis
    using assms(1)
    by (cases f) (auto simp: fifo_wf_def fifo_push_item_def fifo_push_def fifo_send_signal_def mutex_cycle
        fifo_put_def Let_def)
qed

lemma fifo_pop_item_wf:
  assumes "fifo_wf f"
  shows "fifo_pop_item t (Some f) =
    Inr (Some (case fifo_head f of
                 None \<Rightarrow> f
               | Some a \<Rightarrow> f\<lparr>fifo_heap := (fifo_heap f)(a := None), fifo_head := None, fifo_tail := None\<rparr>),
         fifo_content f)"
  using assms
  by (cases f) (auto simp: fifo_wf_def fifo_pop_item_def fifo_wait_signal_def fifo_pop_def mutex_cycle
      fifo_content_def Let_def split: option.splits)

lemma fifo_wf_put_empty:
  assumes "fifo_wf f"
  shows "fifo_wf ((fifo_put v f)\<lparr>fifo_head := Some (fifo_brk f), fifo_tail := Some (fifo_brk f)\<rparr>)"
    "fifo_content ((fifo_put v f)\<lparr>fifo_head := Some (fifo_brk f), fifo_tail := Some (fifo_brk f)\<rparr>) = Some v"
  using assms by (auto simp: fifo_wf_def fifo_put_def fifo_content_def intro: less_SucI)

lemma fifo_wf_put_full:
  assumes "fifo_wf f" "fifo_content f \<noteq> None"
  shows "fifo_wf (fifo_put v f)" "fifo_content (fifo_put v f) = fifo_content f"
  using assms by (auto simp: fifo_wf_def fifo_put_def fifo_content_def intro: less_SucI split: option.splits)

lemma fifo_wf_pop:
  assumes "fifo_wf f"
  shows "fifo_wf (case fifo_head f of
                 None \<Rightarrow> f
               | Some a \<Rightarrow> f\<lparr>fifo_heap := (fifo_heap f)(a := None), fifo_head := None, fifo_tail := None\<rparr>)"
    "fifo_content (case fifo_head f of
                 None \<Rightarrow> f
               | Some a \<Rightarrow> f\<lparr>fifo_heap := (fifo_heap f)(a := None), fifo_head := None, fifo_tail := None\<rparr>) = None"
  using assms by (auto simp: fifo_wf_def fifo_content_def split: option.splits)

section \<open>Runs of producers and consumers\<close>

text \<open>
  The interface the SQLite backend relies on: producers push, the background thread pops, in
  any order. A run returns the items popped, in the order they were popped.
\<close>

datatype 'a fifo_op = Push 'a | Pop

fun pushed :: "'a fifo_op list \<Rightarrow> 'a list" where
  "pushed [] = []"
| "pushed (Push x # ops) = x # pushed ops"
| "pushed (Pop # ops) = pushed ops"

definition slot_list :: "'a option \<Rightarrow> 'a list" where
  "slot_list c = (case c of None \<Rightarrow> [] | Some x \<Rightarrow> [x])"

lemma slot_list_simps [simp]: "slot_list None = []" "slot_list (Some x) = [x]"
  by (simp_all add: slot_list_def)

fun mb_run ::
  "('a \<Rightarrow> 'q \<Rightarrow> 'q res) \<Rightarrow> ('q \<Rightarrow> ('q \<times> 'a option) res) \<Rightarrow> 'a fifo_op list \<Rightarrow> 'q \<Rightarrow> ('q \<times> 'a list) res" where
  "mb_run push pop [] q = Inr (q, [])"
| "mb_run push pop (Push x # ops) q = rbind (push x q) (mb_run push pop ops)"
| "mb_run push pop (Pop # ops) q =
     rbind (pop q) (\<lambda>(q', r).
       rbind (mb_run push pop ops q') (\<lambda>(q'', out). Inr (q'', slot_list r @ out)))"

text \<open>The specification: a slot that keeps its item when another one arrives.\<close>

fun slot_run :: "'a fifo_op list \<Rightarrow> 'a option \<Rightarrow> 'a option \<times> 'a list" where
  "slot_run [] c = (c, [])"
| "slot_run (Push x # ops) c = slot_run ops (case c of None \<Rightarrow> Some x | Some y \<Rightarrow> Some y)"
| "slot_run (Pop # ops) c = (case slot_run ops None of (c', out) \<Rightarrow> (c', slot_list c @ out))"

text \<open>No push finds the slot occupied.\<close>

fun fits :: "'a fifo_op list \<Rightarrow> 'a option \<Rightarrow> bool" where
  "fits [] c = True"
| "fits (Push x # ops) c = (c = None \<and> fits ops (Some x))"
| "fits (Pop # ops) c = fits ops None"

lemma slot_run_subseq:
  "slot_run ops c = (c', out) \<Longrightarrow> subseq (out @ slot_list c') (slot_list c @ pushed ops)"
proof (induction ops arbitrary: c out rule: pushed.induct)
  case 1
  then show ?case by auto
next
  case (2 x ops)
  show ?case
  proof (cases c)
    case None
    with 2 show ?thesis by force
  next
    case (Some y)
    with 2 have "subseq (out @ slot_list c') (y # pushed ops)" by force
    moreover have "subseq (y # pushed ops) (y # x # pushed ops)" by auto
    ultimately show ?thesis using Some by (auto intro: subseq_order.trans)
  qed
next
  case (3 ops)
  then obtain out' where "slot_run ops None = (c', out')" "out = slot_list c @ out'"
    by (auto split: prod.splits)
  with "3.IH" [of None out'] show ?case by (auto intro: list_emb_append_mono)
qed

lemma slot_run_fits:
  "slot_run ops c = (c', out) \<Longrightarrow> fits ops c \<Longrightarrow> out @ slot_list c' = slot_list c @ pushed ops"
  by (induction ops arbitrary: c out rule: pushed.induct) (auto split: prod.splits)

locale mailbox =
  fixes push :: "'a \<Rightarrow> 'q \<Rightarrow> 'q res" and pop :: "'q \<Rightarrow> ('q \<times> 'a option) res"
    and content :: "'q \<Rightarrow> 'a option" and invar :: "'q \<Rightarrow> bool"
  assumes push_empty:
      "invar q \<Longrightarrow> content q = None \<Longrightarrow> \<exists>q'. push x q = Inr q' \<and> invar q' \<and> content q' = Some x"
    and pop_spec: "invar q \<Longrightarrow> \<exists>q'. pop q = Inr (q', content q) \<and> invar q' \<and> content q' = None"
begin

lemma run_fits:
  assumes "invar q" "fits ops (content q)" "slot_run ops (content q) = (c', out)"
  shows "\<exists>q'. mb_run push pop ops q = Inr (q', out) \<and> invar q' \<and> content q' = c'"
  using assms
proof (induction ops arbitrary: q out rule: pushed.induct)
  case 1
  then show ?case by auto
next
  case (2 x ops)
  then obtain q' where "push x q = Inr q'" "invar q'" "content q' = Some x"
    using push_empty by fastforce
  with 2 show ?case by auto
next
  case (3 ops)
  obtain q' where q': "pop q = Inr (q', content q)" "invar q'" "content q' = None"
    using pop_spec "3.prems"(1) by blast
  from "3.prems"(3) obtain out' where "slot_run ops None = (c', out')" "out = slot_list (content q) @ out'"
    by (auto split: prod.splits)
  with 3 q' show ?case by fastforce
qed

end

text \<open>A build without assertions: an item pushed onto a full slot is dropped.\<close>

locale dropping_mailbox = mailbox +
  assumes push_full:
    "invar q \<Longrightarrow> content q \<noteq> None \<Longrightarrow> \<exists>q'. push x q = Inr q' \<and> invar q' \<and> content q' = content q"
begin

lemma run_slot:
  assumes "invar q" "slot_run ops (content q) = (c', out)"
  shows "\<exists>q'. mb_run push pop ops q = Inr (q', out) \<and> invar q' \<and> content q' = c'"
  using assms
proof (induction ops arbitrary: q out rule: pushed.induct)
  case 1
  then show ?case by auto
next
  case (2 x ops)
  obtain q' where "push x q = Inr q'" "invar q'"
    "content q' = (case content q of None \<Rightarrow> Some x | Some y \<Rightarrow> Some y)"
    using push_empty [OF "2.prems"(1)] push_full [OF "2.prems"(1)]
    by (cases "content q") (metis option.simps(4), metis option.distinct(1) option.simps(5))
  with 2 show ?case by auto
next
  case (3 ops)
  obtain q' where q': "pop q = Inr (q', content q)" "invar q'" "content q' = None"
    using pop_spec "3.prems"(1) by blast
  from "3.prems"(2) obtain out' where "slot_run ops None = (c', out')" "out = slot_list (content q) @ out'"
    by (auto split: prod.splits)
  with 3 q' show ?case by fastforce
qed

end

text \<open>A build with assertions: pushing onto a full slot aborts.\<close>

locale aborting_mailbox = mailbox +
  assumes push_full: "invar q \<Longrightarrow> content q \<noteq> None \<Longrightarrow> push x q = Inl Assert_Failed"
begin

lemma run_overflow:
  assumes "invar q" "\<not> fits ops (content q)"
  shows "mb_run push pop ops q = Inl Assert_Failed"
  using assms
proof (induction ops arbitrary: q rule: pushed.induct)
  case 1
  then show ?case by simp
next
  case (2 x ops)
  show ?case
  proof (cases "content q")
    case None
    then obtain q' where "push x q = Inr q'" "invar q'" "content q' = Some x"
      using push_empty "2.prems"(1) by blast
    with 2 None show ?thesis by simp
  next
    case (Some y)
    with "2.prems"(1) show ?thesis by (simp add: push_full)
  qed
next
  case (3 ops)
  obtain q' where q': "pop q = Inr (q', content q)" "invar q'" "content q' = None"
    using pop_spec "3.prems"(1) by blast
  with 3 show ?case by simp
qed

end

section \<open>The queue of the program as a mailbox\<close>

definition fifo_push_op :: "bool \<Rightarrow> nat \<Rightarrow> 'a \<Rightarrow> 'a fifo option \<Rightarrow> 'a fifo option res" where
  "fifo_push_op nd t x q = rbind (fifo_push_item nd True t q (Some x)) (\<lambda>(q', st). Inr q')"

definition fifo_q_wf :: "'a fifo option \<Rightarrow> bool" where
  "fifo_q_wf q = (case q of None \<Rightarrow> False | Some f \<Rightarrow> fifo_wf f)"

definition fifo_q_content :: "'a fifo option \<Rightarrow> 'a option" where
  "fifo_q_content q = (case q of None \<Rightarrow> None | Some f \<Rightarrow> fifo_content f)"

lemmas fifo_q_defs = fifo_push_op_def fifo_q_wf_def fifo_q_content_def

lemma fifo_q_init: "fifo_q_wf (fifo_init True)" "fifo_q_content (fifo_init True) = None"
  by (simp_all add: fifo_q_defs fifo_init_def fifo_wf_empty)

lemma fifo_mailbox: "mailbox (fifo_push_op nd t) (fifo_pop_item t) fifo_q_content fifo_q_wf"
proof
  fix q :: "'a fifo option" and x
  assume "fifo_q_wf q" "fifo_q_content q = None"
  then show "\<exists>q'. fifo_push_op nd t x q = Inr q' \<and> fifo_q_wf q' \<and> fifo_q_content q' = Some x"
    by (cases q) (auto simp: fifo_q_defs fifo_push_item_empty fifo_wf_put_empty)
next
  fix q :: "'a fifo option"
  assume "fifo_q_wf q"
  then show "\<exists>q'. fifo_pop_item t q = Inr (q', fifo_q_content q) \<and> fifo_q_wf q' \<and> fifo_q_content q' = None"
    by (cases q) (simp_all add: fifo_q_defs fifo_pop_item_wf fifo_wf_pop)
qed

interpretation ndebug_fifo: dropping_mailbox "fifo_push_op True t" "fifo_pop_item t" fifo_q_content fifo_q_wf
  for t :: nat
proof (intro dropping_mailbox.intro fifo_mailbox dropping_mailbox_axioms.intro)
  fix q :: "'b fifo option" and x
  assume "fifo_q_wf q" "fifo_q_content q \<noteq> None"
  then show "\<exists>q'. fifo_push_op True t x q = Inr q' \<and> fifo_q_wf q' \<and> fifo_q_content q' = fifo_q_content q"
    by (auto simp: fifo_q_defs fifo_push_item_full fifo_wf_put_full split: option.splits)
qed

interpretation debug_fifo: aborting_mailbox "fifo_push_op False t" "fifo_pop_item t" fifo_q_content fifo_q_wf
  for t :: nat
proof (intro aborting_mailbox.intro fifo_mailbox aborting_mailbox_axioms.intro)
  fix q :: "'b fifo option" and x
  assume "fifo_q_wf q" "fifo_q_content q \<noteq> None"
  then show "fifo_push_op False t x q = Inl Assert_Failed"
    by (auto simp: fifo_q_defs fifo_push_item_full split: option.splits)
qed


text \<open>
  C10. In a build with assertions a run of pushes and pops from a fresh queue returns exactly
  when no push finds an item in the queue; the items popped are then the items pushed, in
  order, except for the one still queued. Otherwise the process aborts.
\<close>

theorem fifo_debug_run:
  "(case mb_run (fifo_push_op False t) (fifo_pop_item t) ops (fifo_init True) of
      Inl e \<Rightarrow> e = Assert_Failed \<and> \<not> fits ops None
    | Inr (q', out) \<Rightarrow> fits ops None \<and> out @ slot_list (fifo_q_content q') = pushed ops)"
proof (cases "fits ops None")
  case True
  obtain c' out where sr: "slot_run ops None = (c', out)" by fastforce
  with True debug_fifo.run_fits [OF fifo_q_init(1), of ops c' out t]
  obtain q' where "mb_run (fifo_push_op False t) (fifo_pop_item t) ops (fifo_init True) = Inr (q', out)"
    "fifo_q_content q' = c'"
    by (auto simp: fifo_q_init)
  with True slot_run_fits [OF sr] show ?thesis by simp
next
  case False
  then have "mb_run (fifo_push_op False t) (fifo_pop_item t) ops (fifo_init True) = Inl Assert_Failed"
    by (intro debug_fifo.run_overflow) (simp_all add: fifo_q_init)
  with False show ?thesis by simp
qed

lemma fifo_run_out:
  assumes "mb_run (fifo_push_op nd t) (fifo_pop_item t) ops (fifo_init True) = Inr (q', out)"
  shows "\<exists>c'. slot_run ops None = (c', out)"
proof -
  obtain c' out' where sr: "slot_run ops None = (c', out')" by fastforce
  have "\<exists>q''. mb_run (fifo_push_op nd t) (fifo_pop_item t) ops (fifo_init True) = Inr (q'', out')"
  proof (cases nd)
    case True
    with ndebug_fifo.run_slot [OF fifo_q_init(1), of ops c' out' t] sr show ?thesis
      by (auto simp: fifo_q_init)
  next
    case False
    with assms have "fits ops None"
      using debug_fifo.run_overflow [OF fifo_q_init(1), of ops t] by (auto simp: fifo_q_init)
    with False debug_fifo.run_fits [OF fifo_q_init(1), of ops c' out' t] sr show ?thesis
      by (auto simp: fifo_q_init)
  qed
  with assms sr show ?thesis by auto
qed

text \<open>
  Whatever the build and the interleaving, the items popped are a subsequence of the items
  pushed: nothing is invented, duplicated or reordered.
\<close>

lemma fifo_pops_in_push_order:
  assumes "mb_run (fifo_push_op nd t) (fifo_pop_item t) ops (fifo_init True) = Inr (q', out)"
  shows "subseq out (pushed ops)"
proof -
  obtain c' where "slot_run ops None = (c', out)" using fifo_run_out [OF assms] by blast
  then have "subseq (out @ slot_list c') (pushed ops)" using slot_run_subseq by fastforce
  moreover have "subseq out (out @ slot_list c')" by (intro prefix_imp_subseq) simp
  ultimately show ?thesis using subseq_order.trans by blast
qed

section \<open>Storage\<close>

definition live_cells :: "'a fifo option \<Rightarrow> nat" where
  "live_cells q = (case q of None \<Rightarrow> 0 | Some f \<Rightarrow> card (dom (fifo_heap f)))"

lemma fifo_wf_finite: "fifo_wf f \<Longrightarrow> finite (dom (fifo_heap f))"
  by (rule finite_subset [of _ "{..< fifo_brk f}"]) (auto simp: fifo_wf_def)

lemma fifo_wf_fresh: "fifo_wf f \<Longrightarrow> fifo_brk f \<notin> dom (fifo_heap f)"
  by (auto simp: fifo_wf_def)

lemma live_cells_push:
  assumes "fifo_q_wf q" "fifo_push_op True t x q = Inr q'"
  shows "live_cells q' = Suc (live_cells q)"
proof -
  obtain f where q: "q = Some f" and f: "fifo_wf f"
    using assms(1) by (cases q) (auto simp: fifo_q_defs)
  have "card (dom (fifo_heap (fifo_put x f))) = Suc (card (dom (fifo_heap f)))"
    using f by (simp add: fifo_put_def fifo_wf_finite fifo_wf_fresh)
  then show ?thesis
    using assms(2) q f
    by (cases "fifo_content f = None")
      (auto simp: fifo_push_op_def live_cells_def fifo_push_item_empty fifo_push_item_full)
qed

lemma live_cells_pop:
  assumes "fifo_q_wf q" "fifo_pop_item t q = Inr (q', r)"
  shows "live_cells q' + length (slot_list r) = live_cells q"
proof -
  obtain f where q: "q = Some f" and f: "fifo_wf f"
    using assms(1) by (cases q) (auto simp: fifo_q_defs)
  show ?thesis
  proof (cases "fifo_head f")
    case None
    then show ?thesis
      using assms(2) q f by (auto simp: fifo_pop_item_wf fifo_content_def)
  next
    case (Some a)
    then obtain it where it: "fifo_heap f a = Some it" using f by (auto simp: fifo_wf_def)
    then have "a \<in> dom (fifo_heap f)" by blast
    then have "card (dom (fifo_heap f)) = Suc (card (dom (fifo_heap f) - {a}))"
      using fifo_wf_finite [OF f] by (simp only: card_Suc_Diff1)
    with Some it show ?thesis
      using assms(2) q f by (auto simp: fifo_pop_item_wf fifo_content_def live_cells_def)
  qed
qed

lemma live_cells_run:
  assumes "fifo_q_wf q" "mb_run (fifo_push_op True t) (fifo_pop_item t) ops q = Inr (q', out)"
  shows "live_cells q' + length out = live_cells q + length (pushed ops)"
  using assms
proof (induction ops arbitrary: q out rule: pushed.induct)
  case 1
  then show ?case by simp
next
  case (2 x ops)
  then obtain q1 where q1: "fifo_push_op True t x q = Inr q1"
    "mb_run (fifo_push_op True t) (fifo_pop_item t) ops q1 = Inr (q', out)" by auto
  moreover have "fifo_q_wf q1"
    using "2.prems"(1) q1(1) ndebug_fifo.push_empty ndebug_fifo.push_full by (metis Inr_inject)
  ultimately show ?case using "2.IH" live_cells_push [OF "2.prems"(1) q1(1)] by simp
next
  case (3 ops)
  then obtain q1 r out' where q1: "fifo_pop_item t q = Inr (q1, r)"
    "mb_run (fifo_push_op True t) (fifo_pop_item t) ops q1 = Inr (q', out')" "out = slot_list r @ out'"
    by auto
  moreover have "fifo_q_wf q1"
    using ndebug_fifo.pop_spec [OF "3.prems"(1), of t] q1(1) by auto
  ultimately show ?case using "3.IH" [of q1 out'] live_cells_pop [OF "3.prems"(1) q1(1)] by simp
qed

text \<open>
  Storage of the queue in a build without assertions: after any run from a fresh queue the
  number of allocated cells is the number of pushes minus the number of items popped. As at
  most one item is ever reachable, every further cell is leaked.
\<close>

lemma fifo_live_cells:
  assumes "mb_run (fifo_push_op True t) (fifo_pop_item t) ops (fifo_init True) = Inr (q', out)"
  shows "live_cells q' = length (pushed ops) - length out"
  using live_cells_run [OF fifo_q_init(1) assms] by (simp add: live_cells_def fifo_init_def fifo_empty_def)

section \<open>Locking\<close>

text \<open>The queue with the lock in the hands of thread \<open>t\<close>.\<close>

definition locked_by :: "nat \<Rightarrow> 'a fifo \<Rightarrow> 'a fifo" where
  "locked_by t f = f\<lparr>fifo_mutex := \<lparr>owner = Some t, depth = Suc 0\<rparr>\<rparr>"

text \<open>
  While one thread holds the queue's lock from outside (\<^verbatim>\<open>fifo_lock\<close>, as rotation does), no push of another
  thread changes the queue and every pop blocks; once the holder unlocks the queue is as it was.
\<close>

lemma lock_wf: "fifo_wf f \<Longrightarrow> fifo_lock t (Some f) = Inr (Some (locked_by t f))"
  by (auto simp: fifo_lock_def fifo_wf_def mutex_cycle locked_by_def)

lemma unlock_locked: "fifo_wf f \<Longrightarrow> fifo_unlock t (Some (locked_by t f)) = Some f"
  by (cases f) (auto simp: fifo_unlock_def fifo_wf_def mutex_cycle locked_by_def)

lemma push_locked:
  assumes "fifo_wf f" "v \<noteq> t" "fifo_push_item nd alloc v (Some (locked_by t f)) x = Inr (q, st)"
  shows "q = Some (locked_by t f)"
  using assms
  by (cases x) (auto simp: fifo_push_item_def fifo_push_def mutex_lock_recursive_def locked_by_def Let_def split: if_splits)

lemma pop_locked:
  assumes "fifo_wf f" "u \<noteq> t"
  shows "fifo_pop_item u (Some (locked_by t f)) = Inl Would_Block"
  using assms
  by (auto simp: fifo_pop_item_def fifo_wait_signal_def fifo_pop_def mutex_lock_recursive_def locked_by_def
      fifo_wf_def mutex_cycle)

lemma push_keeps_queue:
  assumes "fifo_push_item nd alloc v (Some f) x = Inr (q, st)"
  shows "q \<noteq> None"
  using assms
  by (cases x) (auto simp: fifo_push_item_def fifo_push_def Let_def split: if_splits option.splits)

text \<open>
  The deadline of the consumer's wait is a proper \<^verbatim>\<open>timespec\<close>, exactly one second after the
  instant made of the two clock readings.
\<close>

lemma wait_deadline_one_second:
  assumes "0 \<le> usec" "usec < 1000000"
  shows "0 \<le> tv_nsec (wait_deadline now usec) \<and> tv_nsec (wait_deadline now usec) < 1000000000 \<and>
    tv_sec (wait_deadline now usec) * 1000000000 + tv_nsec (wait_deadline now usec) =
      now * 1000000000 + usec * 1000 + 1000000000"
  using assms by (simp add: wait_deadline_def Let_def)

end
