(* ===== verification/Sqlite.thy ===== *)
theory Sqlite
  imports Fifo Text_Line Config
begin

text \<open>
  The SQLite backend, \<^verbatim>\<open>src/pdns-logger-sqlite.c\<close>. Producers turn messages into INSERT statements
  and push them on the queue; a background thread pops and executes them; with \<^verbatim>\<open>autocommit=0\<close>
  the statements are grouped into transactions by a counter. The SQLite library itself is a
  parameter: a record of the functions the source calls, over a world that holds the library's
  state and the database files.
\<close>

section \<open>The SQLite library\<close>

text \<open>
  \<^verbatim>\<open>sqlite3_exec\<close>, \<^verbatim>\<open>sqlite3_get_autocommit\<close>, \<^verbatim>\<open>sqlite3_open_v2\<close> (return code and handle),
  \<^verbatim>\<open>sqlite3_close\<close>, and of \<^verbatim>\<open>sqlite3_mprintf\<close> the escaping done by \<^verbatim>\<open>%q\<close>, the value \<^verbatim>\<open>%ld\<close> reads where an
  int was passed, and the allocation of the result (NULL when memory is short).
\<close>

record ('h, 'w) sqlite3_api =
  sqlite3_exec :: "'h option \<Rightarrow> string \<Rightarrow> 'w \<Rightarrow> int \<times> 'w"
  sqlite3_get_autocommit :: "'h option \<Rightarrow> 'w \<Rightarrow> bool"
  sqlite3_open_v2 :: "cstring \<Rightarrow> 'w \<Rightarrow> int \<times> 'h option \<times> 'w"
  sqlite3_close :: "'h option \<Rightarrow> 'w \<Rightarrow> 'w"
  mprintf_q :: "string \<Rightarrow> string"
  mprintf_ld :: "int \<Rightarrow> int"
  mprintf_alloc :: "string \<Rightarrow> string option"

section \<open>State\<close>

text \<open>The background thread: not created, created, in its loop, returned.\<close>

datatype bg_thread = Bg_None | Bg_Created | Bg_Loop | Bg_Done

record ('h, 'w) logsqlite =
  dbfile :: cstring
  db :: "'h option"
  sq_rewrites_only :: bool
  sq_fifo :: "string fifo option"
  bgthread :: bg_thread
  bgrunning :: bool
  sq_disabled :: bool
  autocommit :: bool
  counter :: int
  sq_world :: 'w

definition logsqlite_static :: "'w \<Rightarrow> ('h, 'w) logsqlite" where
  "logsqlite_static w =
     \<lparr>dbfile = None, db = None, sq_rewrites_only = True, sq_fifo = None, bgthread = Bg_None,
      bgrunning = False, sq_disabled = False, autocommit = True, counter = 0, sq_world = w\<rparr>"

section \<open>Statements\<close>

definition SQL_CREATE_TABLE :: string where
  "SQL_CREATE_TABLE =
     ''CREATE TABLE IF NOT EXISTS logs ( '' @
     ''   ts      INTEGER NOT NULL, '' @
     ''   querier VARCHAR(48), '' @
     ''   id      INTEGER NOT NULL, '' @
     ''   qtype   VARCHAR(10), '' @
     ''   qclass  VARCHAR(10), '' @
     ''   qname   VARCHAR(256), '' @
     ''   rcode   VARCHAR(16), '' @
     ''   rcount  INTEGER, '' @
     ''   rname   VARCHAR(256), '' @
     ''   rtype   VARCHAR(10), '' @
     ''   rclass  VARCHAR(10), '' @
     ''   rttl    INTEGER, '' @
     ''   rdata   VARCHAR(256), '' @
     ''   policy  VARCHAR(100)'' @
     '')''"

definition SQL_CREATE_INDEX :: string where
  "SQL_CREATE_INDEX =
     ''CREATE INDEX IF NOT EXISTS logs_ts_idx      ON  logs(ts);'' @
     ''CREATE INDEX IF NOT EXISTS logs_querier_idx ON  logs(querier);'' @
     ''CREATE INDEX IF NOT EXISTS logs_qname_idx   ON  logs(qname);'' @
     ''CREATE INDEX IF NOT EXISTS logs_policy_idx  ON logs(policy);''"

text \<open>The values of one row, with the NULL pointers the local variables may still hold.\<close>

record sql_row =
  row_ts :: int
  row_from :: string
  row_msgid :: int
  row_qtype :: cstring
  row_qclass :: cstring
  row_qname :: cstring
  row_rcode :: cstring
  row_rcount :: int
  row_rname :: cstring
  row_rtype :: cstring
  row_rclass :: cstring
  row_rttl :: int
  row_rdata :: cstring
  row_policy :: cstring

definition row_init :: sql_row where
  "row_init =
     \<lparr>row_ts = 0, row_from = [], row_msgid = 0, row_qtype = None, row_qclass = None,
      row_qname = None, row_rcode = None, row_rcount = 0, row_rname = None, row_rtype = None,
      row_rclass = None, row_rttl = 0, row_rdata = None, row_policy = None\<rparr>"

definition or_empty :: "cstring \<Rightarrow> string" where
  "or_empty x = (case x of None \<Rightarrow> [] | Some s \<Rightarrow> s)"

text \<open>A quoted field of the format, \<^verbatim>\<open>'%q'\<close>.\<close>

definition quoted :: "('h, 'w) sqlite3_api \<Rightarrow> string \<Rightarrow> string" where
  "quoted api s = [CHR 0x27] @ mprintf_q api s @ [CHR 0x27]"

definition sql_insert :: "('h, 'w) sqlite3_api \<Rightarrow> sql_row \<Rightarrow> string" where
  "sql_insert api w =
     ''INSERT INTO logs ('' @
     ''  ts, querier, id, qtype, qclass, qname, rcode, rcount, rname, rtype, rclass, rttl, rdata, policy '' @
     '') VALUES ('' @
     ''  '' @ show_int (mprintf_ld api (row_ts w)) @ '', '' @ quoted api (row_from w) @ '', '' @
     show_int (row_msgid w) @ '', '' @ quoted api (or_empty (row_qtype w)) @ '', '' @
     quoted api (or_empty (row_qclass w)) @ '', '' @ quoted api (or_empty (row_qname w)) @ '', '' @
     quoted api (or_empty (row_rcode w)) @ '', '' @ show_int (row_rcount w) @ '', '' @
     quoted api (or_empty (row_rname w)) @ '', '' @ quoted api (or_empty (row_rtype w)) @ '', '' @
     quoted api (or_empty (row_rclass w)) @ '', '' @ show_int (mprintf_ld api (row_rttl w)) @ '', '' @
     quoted api (or_empty (row_rdata w)) @ '', '' @ quoted api (or_empty (row_policy w)) @ ''  '' @
     '')''"

definition prepare_sql :: "('h, 'w) sqlite3_api \<Rightarrow> sql_row \<Rightarrow> string option" where
  "prepare_sql api w = mprintf_alloc api (sql_insert api w)"

section \<open>Executing and flushing\<close>

text \<open>
  \<^verbatim>\<open>db_exec\<close> and \<^verbatim>\<open>db_flush\<close> call each other; the first argument bounds the depth of the calls. A
  depth of two is always enough, since the counter restarts before the nested calls.
\<close>

function (sequential) db_exec ::
    "nat \<Rightarrow> ('h, 'w) sqlite3_api \<Rightarrow> string \<Rightarrow> ('h, 'w) logsqlite \<Rightarrow> (pdns_status \<times> ('h, 'w) logsqlite) option"
  and db_flush ::
    "nat \<Rightarrow> ('h, 'w) sqlite3_api \<Rightarrow> ('h, 'w) logsqlite \<Rightarrow> (pdns_status \<times> ('h, 'w) logsqlite) option" where
  "db_exec 0 api sql s = None"
| "db_exec (Suc n) api sql s =
     (case sqlite3_exec api (db s) sql (sq_world s) of (res, w) \<Rightarrow>
        let s1 = s\<lparr>counter := counter s + 1, sq_world := w\<rparr>
        in if res \<noteq> 0 then Some (PDNS_NO, s1)
           else if 50 \<le> counter s1
           then map_option (\<lambda>(st, s2). (PDNS_OK, s2)) (db_flush n api (s1\<lparr>counter := 0\<rparr>))
           else Some (PDNS_OK, s1))"
| "db_flush n api s =
     (if \<not> autocommit s then
        Option.bind
          (if \<not> sqlite3_get_autocommit api (db s) (sq_world s)
           then map_option snd (db_exec n api ''COMMIT'' s) else Some s)
          (\<lambda>s1. map_option (\<lambda>(st, s2). (PDNS_OK, s2)) (db_exec n api ''BEGIN'' s1))
      else Some (PDNS_OK, s))"
  by pat_completeness auto
termination
  by (relation "measure (\<lambda>x. case x of Inl (n, _) \<Rightarrow> 2 * n | Inr (n, _) \<Rightarrow> 2 * n + 1)") auto

definition DEPTH :: nat where
  "DEPTH = 2"

definition db_open :: "('h, 'w) sqlite3_api \<Rightarrow> cstring \<Rightarrow> ('h, 'w) logsqlite \<Rightarrow> (pdns_status \<times> ('h, 'w) logsqlite) option" where
  "db_open api file s =
     (case sqlite3_open_v2 api file (sq_world s) of (err, h, w) \<Rightarrow>
        let s1 = s\<lparr>db := h, sq_world := w\<rparr>
        in if err \<noteq> 0 then Some (PDNS_NO, s1)
           else Option.bind (db_exec DEPTH api SQL_CREATE_TABLE s1) (\<lambda>(st, s2).
                Option.bind (db_exec DEPTH api SQL_CREATE_INDEX s2) (\<lambda>(st, s3).
                Option.bind (db_flush DEPTH api s3) (\<lambda>(st, s4). Some (PDNS_OK, s4)))))"

definition db_close :: "('h, 'w) sqlite3_api \<Rightarrow> ('h, 'w) logsqlite \<Rightarrow> pdns_status \<times> ('h, 'w) logsqlite" where
  "db_close api s = (PDNS_OK, s\<lparr>sq_world := sqlite3_close api (db s) (sq_world s)\<rparr>)"

section \<open>The background thread\<close>

text \<open>
  The thread function, one step at a time: its first statement, then one round of its loop per
  step. A round waits for the queue's signal or a second, pops, and executes what it got.
\<close>

definition bg_thread_begin :: "('h, 'w) logsqlite \<Rightarrow> ('h, 'w) logsqlite" where
  "bg_thread_begin s =
     (if bgthread s = Bg_Created then s\<lparr>bgrunning := True, bgthread := Bg_Loop\<rparr> else s)"

definition bg_thread_round ::
  "nat \<Rightarrow> ('h, 'w) sqlite3_api \<Rightarrow> ('h, 'w) logsqlite \<Rightarrow> ('h, 'w) logsqlite res option" where
  "bg_thread_round t api s =
     (if \<not> bgrunning s then Some (Inr (s\<lparr>bgthread := Bg_Done\<rparr>))
      else case fifo_pop_item t (sq_fifo s) of
        Inl e \<Rightarrow> Some (Inl e)
      | Inr (f, sql) \<Rightarrow>
          (case sql of
             None \<Rightarrow> Some (Inr (s\<lparr>sq_fifo := f\<rparr>))
           | Some q \<Rightarrow> map_option (\<lambda>(st, s2). Inr s2) (db_exec DEPTH api q (s\<lparr>sq_fifo := f\<rparr>))))"

text \<open>
  \<^verbatim>\<open>pthread_join\<close> needs a thread; on one that has yet to set \<^verbatim>\<open>bgrunning\<close> it waits for ever, since the loop then never ends.
\<close>

definition bg_thread_stop :: "('h, 'w) logsqlite \<Rightarrow> ('h, 'w) logsqlite res" where
  "bg_thread_stop s =
     (let s1 = s\<lparr>bgrunning := False\<rparr>
      in case bgthread s1 of
           Bg_None \<Rightarrow> Inl Bad_Join
         | Bg_Created \<Rightarrow> Inl Would_Block
         | _ \<Rightarrow> Inr (s1\<lparr>bgthread := Bg_Done\<rparr>))"

definition bg_thread_start :: "('h, 'w) logsqlite \<Rightarrow> pdns_status \<times> ('h, 'w) logsqlite" where
  "bg_thread_start s = (PDNS_OK, s\<lparr>bgthread := Bg_Created\<rparr>)"

section \<open>Settings, start, rotation, stop\<close>

definition sqlite_opt_handler :: "('h, 'w) logsqlite ini_handler" where
  "sqlite_opt_handler s section name value lineno =
     (if zstr (Some section) \<or> zstr (Some name) \<or> zstr (Some value) then (True, s)
      else if str_eq_lit section ''sqlite3'' then
        (if str_eq_lit name ''dbfile'' then (True, s\<lparr>dbfile := Some value\<rparr>)
         else if str_eq_lit name ''only-rewrites'' then (True, s\<lparr>sq_rewrites_only := (atoi value \<noteq> 0)\<rparr>)
         else if str_eq_lit name ''disabled'' then (True, s\<lparr>sq_disabled := (atoi value \<noteq> 0)\<rparr>)
         else if str_eq_lit name ''autocommit'' then (True, s\<lparr>autocommit := (atoi value \<noteq> 0)\<rparr>)
         else (True, s))
      else (True, s))"

definition logsqlite_init ::
  "('h, 'w) sqlite3_api \<Rightarrow> bool \<Rightarrow> (string \<rightharpoonup> string) \<Rightarrow> cstring \<Rightarrow> ('h, 'w) logsqlite \<Rightarrow>
   (pdns_status \<times> ('h, 'w) logsqlite) option" where
  "logsqlite_init api alloc fs inifile s =
     (if zstr inifile then Some (PDNS_NO, s)
      else Option.bind (ini_parse fs (the inifile) sqlite_opt_handler s) (\<lambda>(err, s1).
             if err \<noteq> 0 then Some (PDNS_NO, s1)
             else if sq_disabled s1 then Some (PDNS_OK, s1)
             else if zstr (dbfile s1) then Some (PDNS_NO, s1)
             else let s2 = snd (bg_thread_start (s1\<lparr>sq_fifo := fifo_init alloc\<rparr>))
                  in db_open api (dbfile s2) s2))"

definition logsqlite_rotate ::
  "nat \<Rightarrow> ('h, 'w) sqlite3_api \<Rightarrow> ('h, 'w) logsqlite \<Rightarrow> (pdns_status \<times> ('h, 'w) logsqlite) res option" where
  "logsqlite_rotate t api s =
     (if db s = None then Some (Inr (PDNS_OK, s))
      else case fifo_lock t (sq_fifo s) of
        Inl e \<Rightarrow> Some (Inl e)
      | Inr f \<Rightarrow>
          (let s1 = snd (db_close api (s\<lparr>sq_fifo := f\<rparr>))
           in map_option (\<lambda>(st, s2). Inr (PDNS_OK, s2\<lparr>sq_fifo := fifo_unlock t (sq_fifo s2)\<rparr>))
                (db_open api (dbfile s1) s1)))"

definition logsqlite_stop ::
  "('h, 'w) sqlite3_api \<Rightarrow> ('h, 'w) logsqlite \<Rightarrow> (pdns_status \<times> ('h, 'w) logsqlite) res" where
  "logsqlite_stop api s = rbind (bg_thread_stop s) (\<lambda>s1. Inr (db_close api s1))"

section \<open>Logging a message\<close>

text \<open>The local variables set before the record loop.\<close>

definition row_of_message :: "pbdnsmessage \<Rightarrow> dnsresponse \<Rightarrow> sql_row res" where
  "row_of_message m r =
     rbind (if m_has_from m then
              (if bd_len (m_from m) = 4 then rbind (bd_read 4 (m_from m)) (\<lambda>a. Inr (inet_ntop4 a))
               else if bd_len (m_from m) = 16 then rbind (bd_read 16 (m_from m)) (\<lambda>a. Inr (inet_ntop6 a))
               else Inr [])
            else Inr []) (\<lambda>from.
     Inr (row_init
       \<lparr>row_ts := (if m_has_timesec m then sint (m_timesec m) else 0),
        row_from := from,
        row_msgid := (if m_has_id m then sint (m_id m) else 0),
        row_qtype := (case m_question m of None \<Rightarrow> None
                      | Some q \<Rightarrow> if q_has_qtype q then pdns_logger_type2p (q_qtype q) else None),
        row_qclass := (case m_question m of None \<Rightarrow> None
                       | Some q \<Rightarrow> if q_has_qclass q then pdns_logger_class2p (q_qclass q) else None),
        row_qname := (case m_question m of None \<Rightarrow> None | Some q \<Rightarrow> q_qname q),
        row_rcode := (if r_has_rcode r then pdns_logger_rcode2p (r_rcode r) else None),
        row_policy := (if \<not> zstr (r_appliedpolicy r) then r_appliedpolicy r else None),
        row_rcount := sint (word_of_nat (length (r_rrs r)) :: u32)\<rparr>))"

text \<open>One round of the loop: the variables of the record that are set, the others left as they are.\<close>

definition row_rdata_of :: "dnsrr \<Rightarrow> cstring \<Rightarrow> cstring res" where
  "row_rdata_of rr old =
     (if rr_has_rdata rr then
        (if rr_has_type rr \<and> rr_type rr = 1 \<and> bd_len (rr_rdata rr) = 4 then
           rbind (bd_read 4 (rr_rdata rr)) (\<lambda>a. Inr (Some (inet_ntop4 a)))
         else if rr_has_type rr \<and> rr_type rr = 28 \<and> bd_len (rr_rdata rr) = 16 then
           rbind (bd_read 16 (rr_rdata rr)) (\<lambda>a. Inr (Some (inet_ntop6 a)))
         else if rr_has_type rr \<and> (rr_type rr = 2 \<or> rr_type rr = 5 \<or> rr_type rr = 6 \<or> rr_type rr = 15) then
           bd_as_cstring (rr_rdata rr)
         else Inr (Some ''[Not Supported]''))
      else Inr old)"

definition row_of_rr :: "dnsrr \<Rightarrow> sql_row \<Rightarrow> sql_row res" where
  "row_of_rr rr w =
     rbind (row_rdata_of rr (row_rdata w)) (\<lambda>rdata.
     Inr (w\<lparr>row_rname := rr_name rr,
            row_rtype := (if rr_has_type rr then pdns_logger_type2p (rr_type rr) else row_rtype w),
            row_rclass := (if rr_has_class rr then pdns_logger_class2p (rr_class rr) else row_rclass w),
            row_rttl := (if rr_has_ttl rr then sint (rr_ttl rr) else row_rttl w),
            row_rdata := rdata\<rparr>))"

definition push_row ::
  "('h, 'w) sqlite3_api \<Rightarrow> bool \<Rightarrow> bool \<Rightarrow> nat \<Rightarrow> sql_row \<Rightarrow> ('h, 'w) logsqlite \<Rightarrow> ('h, 'w) logsqlite res" where
  "push_row api nd alloc t w s =
     rbind (fifo_push_item nd alloc t (sq_fifo s) (prepare_sql api w)) (\<lambda>(f, st). Inr (s\<lparr>sq_fifo := f\<rparr>))"

fun logsqlite_rrs ::
  "('h, 'w) sqlite3_api \<Rightarrow> bool \<Rightarrow> bool \<Rightarrow> nat \<Rightarrow> dnsrr list \<Rightarrow> sql_row \<Rightarrow> ('h, 'w) logsqlite \<Rightarrow>
   ('h, 'w) logsqlite res" where
  "logsqlite_rrs api nd alloc t [] w s = Inr s"
| "logsqlite_rrs api nd alloc t (rr # rrs) w s =
     rbind (row_of_rr rr w) (\<lambda>w'.
     rbind (push_row api nd alloc t w' s)
       (logsqlite_rrs api nd alloc t rrs w'))"

definition logsqlite_log ::
  "('h, 'w) sqlite3_api \<Rightarrow> bool \<Rightarrow> bool \<Rightarrow> nat \<Rightarrow> pbdnsmessage option \<Rightarrow> ('h, 'w) logsqlite \<Rightarrow>
   (pdns_status \<times> ('h, 'w) logsqlite) res" where
  "logsqlite_log api nd alloc t msg s =
     (if sq_disabled s then Inr (PDNS_OK, s)
      else case msg of
        None \<Rightarrow> Inr (PDNS_OK, s)
      | Some m \<Rightarrow>
          (case m_response m of
             None \<Rightarrow> Inr (PDNS_OK, s)
           | Some r \<Rightarrow>
               if sq_rewrites_only s \<and> zstr (r_appliedpolicy r) then Inr (PDNS_OK, s)
               else
                 rbind (row_of_message m r) (\<lambda>w.
                 rbind (if 0 < length (r_rrs r) then logsqlite_rrs api nd alloc t (r_rrs r) w s
                        else push_row api nd alloc t w s) (\<lambda>s'.
                 Inr (PDNS_OK, s')))))"

section \<open>What a setting does\<close>

definition set_sqlite :: "string \<Rightarrow> string \<Rightarrow> ('h, 'w) logsqlite \<Rightarrow> ('h, 'w) logsqlite" where
  "set_sqlite n v s =
     (if n = [] \<or> v = [] then s
      else if n = ''dbfile'' then s\<lparr>dbfile := Some v\<rparr>
      else if n = ''only-rewrites'' then s\<lparr>sq_rewrites_only := (atoi v \<noteq> 0)\<rparr>
      else if n = ''disabled'' then s\<lparr>sq_disabled := (atoi v \<noteq> 0)\<rparr>
      else if n = ''autocommit'' then s\<lparr>autocommit := (atoi v \<noteq> 0)\<rparr>
      else s)"

interpretation sqlite_ini: section_handler sqlite_opt_handler "''sqlite3''" set_sqlite
  by unfold_locales (simp_all add: sqlite_opt_handler_def set_sqlite_def)

lemma logsqlite_init_file:
  assumes "f \<noteq> []" "fs f = Some cfg" "ini_syntax_error cfg = 0"
    and "s' = fold (\<lambda>(n, v). set_sqlite n v) (section_settings ''sqlite3'' cfg) s"
  shows "logsqlite_init api alloc fs (Some f) s =
    (if sq_disabled s' then Some (PDNS_OK, s')
     else if zstr (dbfile s') then Some (PDNS_NO, s')
     else db_open api (dbfile s') (s'\<lparr>sq_fifo := fifo_init alloc, bgthread := Bg_Created\<rparr>))"
  using assms
  by (simp add: logsqlite_init_def ini_parse_def sqlite_ini.parse_file_own section_settings_def
      bg_thread_start_def Let_def)

section \<open>Depth of the calls\<close>

text \<open>What one call does without flushing, and what a flush does when neither call flushes again.\<close>

definition exec_once :: "('h, 'w) sqlite3_api \<Rightarrow> string \<Rightarrow> ('h, 'w) logsqlite \<Rightarrow> ('h, 'w) logsqlite" where
  "exec_once api sql s =
     s\<lparr>counter := counter s + 1, sq_world := snd (sqlite3_exec api (db s) sql (sq_world s))\<rparr>"

definition exec_ok :: "('h, 'w) sqlite3_api \<Rightarrow> string \<Rightarrow> ('h, 'w) logsqlite \<Rightarrow> bool" where
  "exec_ok api sql s = (fst (sqlite3_exec api (db s) sql (sq_world s)) = 0)"

definition flush_once :: "('h, 'w) sqlite3_api \<Rightarrow> ('h, 'w) logsqlite \<Rightarrow> ('h, 'w) logsqlite" where
  "flush_once api s =
     (if autocommit s then s
      else exec_once api ''BEGIN''
             (if sqlite3_get_autocommit api (db s) (sq_world s) then s else exec_once api ''COMMIT'' s))"

definition exec_flush :: "('h, 'w) sqlite3_api \<Rightarrow> string \<Rightarrow> ('h, 'w) logsqlite \<Rightarrow> ('h, 'w) logsqlite" where
  "exec_flush api sql s =
     (if exec_ok api sql s \<and> 49 \<le> counter s then flush_once api ((exec_once api sql s)\<lparr>counter := 0\<rparr>)
      else exec_once api sql s)"

lemma exec_once_simps [simp]:
  "counter (exec_once api sql s) = counter s + 1" "autocommit (exec_once api sql s) = autocommit s"
  "db (exec_once api sql s) = db s" "sq_fifo (exec_once api sql s) = sq_fifo s"
  "sq_disabled (exec_once api sql s) = sq_disabled s" "bgrunning (exec_once api sql s) = bgrunning s"
  "dbfile (exec_once api sql s) = dbfile s" "bgthread (exec_once api sql s) = bgthread s"
  "sq_rewrites_only (exec_once api sql s) = sq_rewrites_only s"
  by (simp_all add: exec_once_def)

lemma db_exec_small:
  assumes "counter s < 49"
  shows "db_exec (Suc n) api sql s =
    Some (if exec_ok api sql s then PDNS_OK else PDNS_NO, exec_once api sql s)"
  using assms by (simp add: exec_ok_def exec_once_def Let_def split: prod.split)

text \<open>A flush that starts with a small counter makes at most two calls, and neither flushes again.\<close>

lemma db_flush_small:
  assumes "counter s < 48"
  shows "db_flush (Suc n) api s = Some (PDNS_OK, flush_once api s)"
  using assms by (simp add: flush_once_def db_exec_small del: db_exec.simps)

lemma db_exec_deep:
  "db_exec (Suc (Suc n)) api sql s =
     Some (if exec_ok api sql s then PDNS_OK else PDNS_NO, exec_flush api sql s)"
proof -
  have "db_flush (Suc n) api ((exec_once api sql s)\<lparr>counter := 0\<rparr>) =
      Some (PDNS_OK, flush_once api ((exec_once api sql s)\<lparr>counter := 0\<rparr>))"
    by (rule db_flush_small) simp
  then show ?thesis
    by (cases "sqlite3_exec api (db s) sql (sq_world s)")
      (simp add: exec_ok_def exec_flush_def exec_once_def Let_def del: db_flush.simps)
qed

text \<open>
  C28. The mutual recursion of \<^verbatim>\<open>db_exec\<close> and \<^verbatim>\<open>db_flush\<close> ends: whatever SQLite answers and whatever the
  counter, two levels of calls are enough and more give the same result.
\<close>

theorem db_exec_terminates:
  "\<exists>st s'. \<forall>n. db_exec (DEPTH + n) api sql s = Some (st, s')"
  using db_exec_deep [of _ api sql s] by (simp add: DEPTH_def del: db_exec.simps)

section \<open>The statement carries its values and nothing else\<close>

text \<open>
  What the SQLite manual says of \<^verbatim>\<open>%q\<close>: every single quote of the argument is doubled. And how SQL
  reads a text: outside of string literals character by character, inside up to a quote that is
  not doubled. \<open>sql_scan\<close> returns the text with each literal replaced by a question mark, and the
  literals.
\<close>

definition double_quotes :: "string \<Rightarrow> string" where
  "double_quotes s = concat (map (\<lambda>c. if c = CHR 0x27 then [CHR 0x27, CHR 0x27] else [c]) s)"

fun sql_scan :: "string option \<Rightarrow> string \<Rightarrow> (string \<times> string list) option" where
  "sql_scan None [] = Some ([], [])"
| "sql_scan None (c # cs) =
     (if c = CHR 0x27 then map_option (\<lambda>(out, lits). (CHR ''?'' # out, lits)) (sql_scan (Some []) cs)
      else map_option (\<lambda>(out, lits). (c # out, lits)) (sql_scan None cs))"
| "sql_scan (Some acc) [] = None"
| "sql_scan (Some acc) [c] = (if c = CHR 0x27 then Some ([], [acc]) else None)"
| "sql_scan (Some acc) (c # d # cs) =
     (if c = CHR 0x27 then
        (if d = CHR 0x27 then sql_scan (Some (acc @ [c])) cs
         else map_option (\<lambda>(out, lits). (out, acc # lits)) (sql_scan None (d # cs)))
      else sql_scan (Some (acc @ [c])) (d # cs))"

lemma sql_scan_outside:
  "CHR 0x27 \<notin> set xs \<Longrightarrow>
     sql_scan None (xs @ rest) = map_option (\<lambda>(out, lits). (xs @ out, lits)) (sql_scan None rest)"
  by (induction xs) (auto simp: option.map_comp comp_def case_prod_unfold option.map_ident)

lemma sql_scan_inside:
  "sql_scan (Some acc) (double_quotes s @ CHR 0x27 # CHR '','' # rest) =
     map_option (\<lambda>(out, lits). (out, (acc @ s) # lits)) (sql_scan None (CHR '','' # rest))"
  "sql_scan (Some acc) (double_quotes s @ CHR 0x27 # CHR '' '' # rest) =
     map_option (\<lambda>(out, lits). (out, (acc @ s) # lits)) (sql_scan None (CHR '' '' # rest))"
proof -
  have step: "sql_scan (Some acc) (c # x # y) = sql_scan (Some (acc @ [c])) (x # y)" if "c \<noteq> CHR 0x27" for acc c x y
    using that by simp
  have ex: "\<exists>x y. double_quotes s @ CHR 0x27 # rest = x # y" for s rest
    by (cases "double_quotes s") auto
  have Cons: "sql_scan (Some acc) (double_quotes (c # s) @ CHR 0x27 # rest) =
      sql_scan (Some (acc @ [c])) (double_quotes s @ CHR 0x27 # rest)" for acc c s rest
    using step [of c acc] ex [of s rest] by (auto simp: double_quotes_def)
  have Nil: "double_quotes [] = []" by (simp add: double_quotes_def)
  show "sql_scan (Some acc) (double_quotes s @ CHR 0x27 # CHR '','' # rest) =
     map_option (\<lambda>(out, lits). (out, (acc @ s) # lits)) (sql_scan None (CHR '','' # rest))"
    by (induction s arbitrary: acc) (simp_all only: Cons Nil append.simps append_Nil2 append_assoc, simp)
  show "sql_scan (Some acc) (double_quotes s @ CHR 0x27 # CHR '' '' # rest) =
     map_option (\<lambda>(out, lits). (out, (acc @ s) # lits)) (sql_scan None (CHR '' '' # rest))"
    by (induction s arbitrary: acc) (simp_all only: Cons Nil append.simps append_Nil2 append_assoc, simp)
qed

lemma quote_notin_show_int: "CHR 0x27 \<notin> set (show_int i)"
proof -
  have "\<not> isdigit (CHR 0x27)" by (simp add: isdigit_def)
  then show ?thesis using dec_digits by (auto simp: show_int_def)
qed

text \<open>
  C23. Statements are built safely. When \<^verbatim>\<open>%q\<close> doubles single quotes, SQL reads the INSERT statement
  of any row, whatever names, policies or record data came over the network, as the fixed text
  with the four numbers in place and ten string literals that are exactly the row's strings.
\<close>

theorem sql_insert_reads_back:
  assumes "\<And>s. mprintf_q api s = double_quotes s" "\<And>s. mprintf_alloc api s = Some s"
  shows "Option.bind (prepare_sql api w) (sql_scan None) =
    Some (''INSERT INTO logs (  ts, querier, id, qtype, qclass, qname, rcode, rcount, rname, '' @
          ''rtype, rclass, rttl, rdata, policy ) VALUES (  '' @
          show_int (mprintf_ld api (row_ts w)) @ '', ?, '' @ show_int (row_msgid w) @ '', ?, ?, ?, ?, '' @
          show_int (row_rcount w) @ '', ?, ?, ?, '' @ show_int (mprintf_ld api (row_rttl w)) @ '', ?, ?  )'',
          row_from w # map or_empty [row_qtype w, row_qclass w, row_qname w, row_rcode w, row_rname w,
            row_rtype w, row_rclass w, row_rdata w, row_policy w])"
  using assms
  by (simp add: prepare_sql_def sql_insert_def quoted_def sql_scan_inside sql_scan_outside quote_notin_show_int)

section \<open>The rows of a message\<close>

fun rows_of_rrs :: "dnsrr list \<Rightarrow> sql_row \<Rightarrow> sql_row list res" where
  "rows_of_rrs [] w = Inr []"
| "rows_of_rrs (rr # rrs) w =
     rbind (row_of_rr rr w) (\<lambda>w'. rbind (rows_of_rrs rrs w') (\<lambda>ws. Inr (w' # ws)))"

definition message_rows :: "pbdnsmessage \<Rightarrow> dnsresponse \<Rightarrow> sql_row list res" where
  "message_rows m r =
     rbind (row_of_message m r) (\<lambda>w. if r_rrs r = [] then Inr [w] else rows_of_rrs (r_rrs r) w)"

lemma row_rdata_of_total: "rr_wf rr \<Longrightarrow> rr_printable rr \<Longrightarrow> \<exists>v. row_rdata_of rr old = Inr v"
  by (auto simp: row_rdata_of_def rr_wf_def bd_read_wf rr_printable_def name_type_def bd_as_cstring_def
      split: option.splits)

lemma rows_of_rrs_total:
  "list_all rr_wf rrs \<Longrightarrow> list_all rr_printable rrs \<Longrightarrow> \<exists>ws. rows_of_rrs rrs w = Inr ws \<and> length ws = length rrs"
proof (induction rrs arbitrary: w)
  case (Cons rr rrs)
  then obtain v where "row_rdata_of rr (row_rdata w) = Inr v"
    using row_rdata_of_total [of rr "row_rdata w"] by auto
  then obtain w' where "row_of_rr rr w = Inr w'" by (simp add: row_of_rr_def)
  with Cons.IH [of w'] Cons.prems show ?case by auto
qed simp

lemma message_rows_total:
  assumes "msg_wf m" "m_response m = Some r" "list_all rr_printable (r_rrs r)"
  shows "\<exists>ws. message_rows m r = Inr ws \<and> length ws = max 1 (length (r_rrs r))"
proof -
  have "\<exists>w. row_of_message m r = Inr w"
    using assms(1) by (auto simp: row_of_message_def msg_wf_def bd_read_wf)
  then obtain w where "row_of_message m r = Inr w" by blast
  moreover obtain ws where "rows_of_rrs (r_rrs r) w = Inr ws" "length ws = length (r_rrs r)"
    using rows_of_rrs_total [of "r_rrs r" w] assms by (auto simp: msg_wf_def)
  ultimately show ?thesis by (cases "r_rrs r") (auto simp: message_rows_def)
qed

text \<open>The value the last record with a flag set gives, or a default.\<close>

definition latest :: "('r \<Rightarrow> bool) \<Rightarrow> ('r \<Rightarrow> 'v) \<Rightarrow> 'v \<Rightarrow> 'r list \<Rightarrow> 'v" where
  "latest has val d xs = (case filter has xs of [] \<Rightarrow> d | ys \<Rightarrow> val (last ys))"

lemma latest_Cons: "latest has val d (x # xs) = latest has val (if has x then val x else d) xs"
  by (cases "filter has xs") (auto simp: latest_def)

lemma latest_Nil [simp]: "latest has val d [] = d"
  by (simp add: latest_def)

definition rdata_value :: "dnsrr \<Rightarrow> cstring" where
  "rdata_value rr = (case row_rdata_of rr None of Inl e \<Rightarrow> None | Inr v \<Rightarrow> v)"

lemma row_of_rr_fields:
  assumes "row_of_rr rr w = Inr w'"
  shows "row_rname w' = rr_name rr"
    "row_rtype w' = (if rr_has_type rr then pdns_logger_type2p (rr_type rr) else row_rtype w)"
    "row_rclass w' = (if rr_has_class rr then pdns_logger_class2p (rr_class rr) else row_rclass w)"
    "row_rttl w' = (if rr_has_ttl rr then sint (rr_ttl rr) else row_rttl w)"
    "row_rdata w' = (if rr_has_rdata rr then rdata_value rr else row_rdata w)"
  using assms by (auto simp: row_of_rr_def rdata_value_def row_rdata_of_def split: if_splits)

lemma rows_of_rrs_nth:
  assumes "rows_of_rrs rrs w = Inr ws" "k < length rrs"
  shows "k < length ws" "row_rname (ws ! k) = rr_name (rrs ! k)"
    "row_rtype (ws ! k) = latest rr_has_type (\<lambda>rr. pdns_logger_type2p (rr_type rr)) (row_rtype w) (take (Suc k) rrs)"
    "row_rclass (ws ! k) = latest rr_has_class (\<lambda>rr. pdns_logger_class2p (rr_class rr)) (row_rclass w) (take (Suc k) rrs)"
    "row_rttl (ws ! k) = latest rr_has_ttl (\<lambda>rr. sint (rr_ttl rr)) (row_rttl w) (take (Suc k) rrs)"
    "row_rdata (ws ! k) = latest rr_has_rdata rdata_value (row_rdata w) (take (Suc k) rrs)"
proof -
  have "k < length ws \<and> row_rname (ws ! k) = rr_name (rrs ! k) \<and>
    row_rtype (ws ! k) = latest rr_has_type (\<lambda>rr. pdns_logger_type2p (rr_type rr)) (row_rtype w) (take (Suc k) rrs) \<and>
    row_rclass (ws ! k) = latest rr_has_class (\<lambda>rr. pdns_logger_class2p (rr_class rr)) (row_rclass w) (take (Suc k) rrs) \<and>
    row_rttl (ws ! k) = latest rr_has_ttl (\<lambda>rr. sint (rr_ttl rr)) (row_rttl w) (take (Suc k) rrs) \<and>
    row_rdata (ws ! k) = latest rr_has_rdata rdata_value (row_rdata w) (take (Suc k) rrs)"
    using assms
  proof (induction rrs arbitrary: w ws k)
    case (Cons rr rrs)
    from Cons.prems(1) obtain w' ws' where w': "row_of_rr rr w = Inr w'" "rows_of_rrs rrs w' = Inr ws'" "ws = w' # ws'"
      by auto
    note f = row_of_rr_fields [OF w'(1)]
    show ?case
    proof (cases k)
      case 0
      then show ?thesis by (simp add: w'(3) latest_Cons f)
    next
      case (Suc j)
      with Cons.IH [OF w'(2), of j] Cons.prems(2) show ?thesis by (simp add: w'(3) latest_Cons f)
    qed
  qed simp
  then show "k < length ws" "row_rname (ws ! k) = rr_name (rrs ! k)"
    "row_rtype (ws ! k) = latest rr_has_type (\<lambda>rr. pdns_logger_type2p (rr_type rr)) (row_rtype w) (take (Suc k) rrs)"
    "row_rclass (ws ! k) = latest rr_has_class (\<lambda>rr. pdns_logger_class2p (rr_class rr)) (row_rclass w) (take (Suc k) rrs)"
    "row_rttl (ws ! k) = latest rr_has_ttl (\<lambda>rr. sint (rr_ttl rr)) (row_rttl w) (take (Suc k) rrs)"
    "row_rdata (ws ! k) = latest rr_has_rdata rdata_value (row_rdata w) (take (Suc k) rrs)"
    by blast+
qed

section \<open>What a message leaves on the queue\<close>

definition with_fifo :: "('h, 'w) logsqlite \<Rightarrow> string fifo option \<Rightarrow> ('h, 'w) logsqlite" where
  "with_fifo s q = s\<lparr>sq_fifo := q\<rparr>"

text \<open>Enough memory: the statement and the queue item can be allocated.\<close>

definition memory_ok :: "('h, 'w) sqlite3_api \<Rightarrow> bool" where
  "memory_ok api \<longleftrightarrow> (\<forall>s. mprintf_alloc api s = Some s)"

lemma logsqlite_rrs_run:
  assumes "memory_ok api" "rows_of_rrs rrs w = Inr ws"
  shows "logsqlite_rrs api nd True t rrs w s =
    rbind (mb_run (fifo_push_op nd t) (fifo_pop_item t) (map (\<lambda>w. Push (sql_insert api w)) ws) (sq_fifo s))
      (\<lambda>(q, out). Inr (with_fifo s q))"
  using assms(2)
proof (induction rrs arbitrary: w ws s)
  case Nil
  then show ?case by (simp add: with_fifo_def)
next
  case (Cons rr rrs)
  then obtain w' ws' where w': "row_of_rr rr w = Inr w'" "rows_of_rrs rrs w' = Inr ws'" "ws = w' # ws'"
    by auto
  have "with_fifo (s\<lparr>sq_fifo := a\<rparr>) q = with_fifo s q" for a q by (simp add: with_fifo_def)
  with w' assms(1) Cons.IH [OF w'(2)] show ?case
    by (cases "fifo_push_item nd True t (sq_fifo s) (Some (sql_insert api w'))")
      (auto simp: push_row_def prepare_sql_def memory_ok_def fifo_push_op_def)
qed

lemma logsqlite_log_run:
  assumes "memory_ok api" "msg_selected (sq_disabled s) (sq_rewrites_only s) (Some m)"
    and "m_response m = Some r" "message_rows m r = Inr ws"
  shows "logsqlite_log api nd True t (Some m) s =
    rbind (mb_run (fifo_push_op nd t) (fifo_pop_item t) (map (\<lambda>w. Push (sql_insert api w)) ws) (sq_fifo s))
      (\<lambda>(q, out). Inr (PDNS_OK, with_fifo s q))"
proof -
  from assms(4) obtain w where w: "row_of_message m r = Inr w" by (auto simp: message_rows_def)
  have push: "push_row api nd True t w s =
      rbind (mb_run (fifo_push_op nd t) (fifo_pop_item t) [Push (sql_insert api w)] (sq_fifo s))
        (\<lambda>(q, out). Inr (with_fifo s q))"
    using assms(1)
    by (cases "fifo_push_item nd True t (sq_fifo s) (Some (sql_insert api w))")
      (auto simp: push_row_def prepare_sql_def memory_ok_def fifo_push_op_def with_fifo_def)
  have "(if 0 < length (r_rrs r) then logsqlite_rrs api nd True t (r_rrs r) w s else push_row api nd True t w s) =
      rbind (mb_run (fifo_push_op nd t) (fifo_pop_item t) (map (\<lambda>w. Push (sql_insert api w)) ws) (sq_fifo s))
        (\<lambda>(q, out). Inr (with_fifo s q))"
  proof (cases "r_rrs r = []")
    case True
    then have "ws = [w]" using assms(4) w by (simp add: message_rows_def)
    with True push show ?thesis by simp
  next
    case False
    with assms(4) w logsqlite_rrs_run [OF assms(1), of "r_rrs r" w ws nd t s] show ?thesis
      by (simp add: message_rows_def)
  qed
  then show ?thesis
    using assms(2,3) w
    by (auto simp: logsqlite_log_def msg_selected_def rbind_assoc case_prod_unfold)
qed

lemma slot_run_pushes:
  "slot_run (map (\<lambda>w. Push (f w)) ws) c = (if ws = [] \<or> c \<noteq> None then c else Some (f (hd ws)), [])"
  "fits (map (\<lambda>w. Push (f w)) ws) c \<longleftrightarrow> ws = [] \<or> c = None \<and> length ws = 1"
proof -
  have full: "slot_run (map (\<lambda>w. Push (f w)) ws) (Some y) = (Some y, [])" for y ws
    by (induction ws) auto
  then show "slot_run (map (\<lambda>w. Push (f w)) ws) c = (if ws = [] \<or> c \<noteq> None then c else Some (f (hd ws)), [])"
    by (cases ws; cases c) auto
  show "fits (map (\<lambda>w. Push (f w)) ws) c \<longleftrightarrow> ws = [] \<or> c = None \<and> length ws = 1"
  proof (cases ws)
    case (Cons w ws')
    then show ?thesis by (cases ws') auto
  qed simp
qed

text \<open>
  C24. What logging one message leaves on the queue, when nothing is popped meanwhile. The rows are
  one per record, at least one. Without assertions the call succeeds, but only the first row
  survives, and only if the queue was empty: every other row is lost. With assertions the
  process aborts unless the queue was empty and the message has at most one record.
\<close>

theorem logsqlite_log_queue:
  assumes "memory_ok api" "msg_selected (sq_disabled s) (sq_rewrites_only s) (Some m)"
    and "m_response m = Some r" "msg_wf m" "list_all rr_printable (r_rrs r)" "fifo_q_wf (sq_fifo s)"
  shows "\<exists>ws. message_rows m r = Inr ws \<and> length ws = max 1 (length (r_rrs r)) \<and>
    (if nd \<or> fifo_q_content (sq_fifo s) = None \<and> length (r_rrs r) \<le> 1
     then \<exists>q. logsqlite_log api nd True t (Some m) s = Inr (PDNS_OK, s\<lparr>sq_fifo := q\<rparr>) \<and> fifo_q_wf q \<and>
            fifo_q_content q =
              (case fifo_q_content (sq_fifo s) of None \<Rightarrow> Some (sql_insert api (hd ws)) | Some x \<Rightarrow> Some x)
     else logsqlite_log api nd True t (Some m) s = Inl Assert_Failed)"
proof -
  obtain ws where ws: "message_rows m r = Inr ws" "length ws = max 1 (length (r_rrs r))"
    using message_rows_total [OF assms(4,3,5)] by blast
  then have ne: "ws \<noteq> []" and one: "length ws = 1 \<longleftrightarrow> length (r_rrs r) \<le> 1" by auto
  let ?ops = "map (\<lambda>w. Push (sql_insert api w)) ws" and ?c = "fifo_q_content (sq_fifo s)"
  let ?c' = "case ?c of None \<Rightarrow> Some (sql_insert api (hd ws)) | Some x \<Rightarrow> Some x"
  have sl: "slot_run ?ops ?c = (?c', [])" using ne by (auto simp: slot_run_pushes split: option.split)
  have fit: "fits ?ops ?c \<longleftrightarrow> ?c = None \<and> length (r_rrs r) \<le> 1" using ne one by (simp add: slot_run_pushes)
  have run: "\<exists>q. mb_run (fifo_push_op nd t) (fifo_pop_item t) ?ops (sq_fifo s) = Inr (q, []) \<and> fifo_q_wf q \<and>
      fifo_q_content q = ?c'" if "nd \<or> fits ?ops ?c"
    using that ndebug_fifo.run_slot [OF assms(6) sl, of t] debug_fifo.run_fits [OF assms(6) _ sl, of t]
    by (cases nd) auto
  note log = logsqlite_log_run [OF assms(1-3) ws(1), of nd t]
  show ?thesis
  proof (intro exI [of _ ws] conjI ws)
    show "if nd \<or> ?c = None \<and> length (r_rrs r) \<le> 1
     then \<exists>q. logsqlite_log api nd True t (Some m) s = Inr (PDNS_OK, s\<lparr>sq_fifo := q\<rparr>) \<and> fifo_q_wf q \<and>
            fifo_q_content q = ?c'
     else logsqlite_log api nd True t (Some m) s = Inl Assert_Failed"
      using run fit debug_fifo.run_overflow [OF assms(6), of ?ops t] log
      by (cases nd) (auto simp: with_fifo_def)
  qed
qed


section \<open>A small SQLite\<close>

text \<open>
  A database for the examples: statements that took effect for good, and those of the open
  transaction.
\<close>

record mini_db =
  durable :: "string list"
  open_tx :: "string list option"

definition mini_exec :: "nat option \<Rightarrow> string \<Rightarrow> mini_db \<Rightarrow> int \<times> mini_db" where
  "mini_exec h sql w =
     (if h = None then (21, w)
      else if sql = ''BEGIN'' then
        (case open_tx w of None \<Rightarrow> (0, w\<lparr>open_tx := Some []\<rparr>) | Some q \<Rightarrow> (1, w))
      else if sql = ''COMMIT'' then
        (case open_tx w of None \<Rightarrow> (1, w) | Some q \<Rightarrow> (0, w\<lparr>durable := durable w @ q, open_tx := None\<rparr>))
      else (case open_tx w of
              None \<Rightarrow> (0, w\<lparr>durable := durable w @ [sql]\<rparr>)
            | Some q \<Rightarrow> (0, w\<lparr>open_tx := Some (q @ [sql])\<rparr>)))"

definition mini_sqlite :: "(nat, mini_db) sqlite3_api" where
  "mini_sqlite =
     \<lparr>sqlite3_exec = mini_exec,
      sqlite3_get_autocommit = (\<lambda>h w. open_tx w = None),
      sqlite3_open_v2 = (\<lambda>f w. (0, Some 0, w\<lparr>open_tx := None\<rparr>)),
      sqlite3_close = (\<lambda>h w. w\<lparr>open_tx := None\<rparr>),
      mprintf_q = double_quotes, mprintf_ld = (\<lambda>i. i), mprintf_alloc = Some\<rparr>"

definition mini_state :: "(nat, mini_db) logsqlite" where
  "mini_state = (logsqlite_static \<lparr>durable = [], open_tx = None\<rparr>)
     \<lparr>dbfile := Some ''db'', db := Some 0, sq_fifo := fifo_init True, bgthread := Bg_Loop, bgrunning := True\<rparr>"

lemma mini_ok:
  "memory_ok mini_sqlite" "sq_disabled mini_state = False" "sq_rewrites_only mini_state = True"
  "fifo_q_wf (sq_fifo mini_state)" "fifo_q_content (sq_fifo mini_state) = None"
  using fifo_q_init by (auto simp: memory_ok_def mini_sqlite_def mini_state_def logsqlite_static_def)

theorem sql_insert_reads_back_witness:
  "Option.bind (prepare_sql mini_sqlite (row_init\<lparr>row_qname := Some [CHR ''a'', CHR 0x27, CHR '')'']\<rparr>)) (sql_scan None) =
    Some (''INSERT INTO logs (  ts, querier, id, qtype, qclass, qname, rcode, rcount, rname, '' @
          ''rtype, rclass, rttl, rdata, policy ) VALUES (  '' @
          show_int (mprintf_ld mini_sqlite 0) @ '', ?, '' @ show_int 0 @ '', ?, ?, ?, ?, '' @
          show_int 0 @ '', ?, ?, ?, '' @ show_int (mprintf_ld mini_sqlite 0) @ '', ?, ?  )'',
          [] # map or_empty [None, None, Some [CHR ''a'', CHR 0x27, CHR '')''], None, None, None, None, None, None])"
  using sql_insert_reads_back [of mini_sqlite "row_init\<lparr>row_qname := Some [CHR ''a'', CHR 0x27, CHR '')'']\<rparr>"]
  by (simp add: mini_sqlite_def row_init_def)

text \<open>Two records, the second without a time to live.\<close>

definition two_rrs :: dnsresponse where
  "two_rrs = example_response\<lparr>r_rrs := [example_rr\<lparr>rr_has_ttl := True, rr_ttl := 60\<rparr>, example_rr]\<rparr>"

definition two_msg :: pbdnsmessage where
  "two_msg = example_msg\<lparr>m_response := Some two_rrs\<rparr>"

lemma two_ok:
  "msg_selected False True (Some two_msg)" "m_response two_msg = Some two_rrs" "msg_wf two_msg"
  "list_all rr_printable (r_rrs two_rrs)" "length (r_rrs two_rrs) = 2"
  by (simp_all add: two_msg_def two_rrs_def msg_selected_def msg_wf_def rr_wf_def bdata_wf_def rr_printable_def
      name_type_def example_defs)

theorem logsqlite_log_queue_witness:
  "\<exists>ws. message_rows two_msg two_rrs = Inr ws \<and> length ws = max 1 (length (r_rrs two_rrs)) \<and>
    (if False \<or> fifo_q_content (sq_fifo mini_state) = None \<and> length (r_rrs two_rrs) \<le> 1
     then \<exists>q. logsqlite_log mini_sqlite False True 1 (Some two_msg) mini_state = Inr (PDNS_OK, mini_state\<lparr>sq_fifo := q\<rparr>) \<and>
            fifo_q_wf q \<and>
            fifo_q_content q =
              (case fifo_q_content (sq_fifo mini_state) of None \<Rightarrow> Some (sql_insert mini_sqlite (hd ws)) | Some x \<Rightarrow> Some x)
     else logsqlite_log mini_sqlite False True 1 (Some two_msg) mini_state = Inl Assert_Failed)"
  by (rule logsqlite_log_queue) (simp_all only: mini_ok two_ok)


section \<open>Transactions\<close>

text \<open>
  What SQLite promises about transactions, for a world in which \<open>kept\<close> lists the statements in
  force for good and \<open>pending\<close> those of the open transaction: \<^verbatim>\<open>BEGIN\<close> opens one and fails inside
  one; \<^verbatim>\<open>COMMIT\<close> makes its statements permanent and fails outside; any other statement joins the
  open transaction or is permanent at once; closing rolls the open transaction back.
\<close>

definition begin_law :: "('h, 'w) sqlite3_api \<Rightarrow> ('w \<Rightarrow> string list) \<Rightarrow> ('w \<Rightarrow> string list option) \<Rightarrow> bool" where
  "begin_law api kept pending \<longleftrightarrow>
     (\<forall>h w. case sqlite3_exec api (Some h) ''BEGIN'' w of (res, w') \<Rightarrow>
        kept w' = kept w \<and>
        (case pending w of None \<Rightarrow> res = 0 \<and> pending w' = Some [] | Some q \<Rightarrow> res \<noteq> 0 \<and> pending w' = Some q))"

definition commit_law :: "('h, 'w) sqlite3_api \<Rightarrow> ('w \<Rightarrow> string list) \<Rightarrow> ('w \<Rightarrow> string list option) \<Rightarrow> bool" where
  "commit_law api kept pending \<longleftrightarrow>
     (\<forall>h w. case sqlite3_exec api (Some h) ''COMMIT'' w of (res, w') \<Rightarrow>
        pending w' = None \<and>
        (case pending w of None \<Rightarrow> res \<noteq> 0 \<and> kept w' = kept w | Some q \<Rightarrow> res = 0 \<and> kept w' = kept w @ q))"

definition statement_law ::
  "('h, 'w) sqlite3_api \<Rightarrow> ('w \<Rightarrow> string list) \<Rightarrow> ('w \<Rightarrow> string list option) \<Rightarrow> string set \<Rightarrow> bool" where
  "statement_law api kept pending ok \<longleftrightarrow>
     ''BEGIN'' \<notin> ok \<and> ''COMMIT'' \<notin> ok \<and>
     (\<forall>h w sql. sql \<in> ok \<longrightarrow>
       (case sqlite3_exec api (Some h) sql w of (res, w') \<Rightarrow>
          res = 0 \<and>
          (case pending w of
             None \<Rightarrow> pending w' = None \<and> kept w' = kept w @ [sql]
           | Some q \<Rightarrow> pending w' = Some (q @ [sql]) \<and> kept w' = kept w)))"

definition sqlite_laws ::
  "('h, 'w) sqlite3_api \<Rightarrow> ('w \<Rightarrow> string list) \<Rightarrow> ('w \<Rightarrow> string list option) \<Rightarrow> string set \<Rightarrow> bool" where
  "sqlite_laws api kept pending ok \<longleftrightarrow>
     begin_law api kept pending \<and> commit_law api kept pending \<and> statement_law api kept pending ok \<and>
     (\<forall>h w. sqlite3_get_autocommit api (Some h) w \<longleftrightarrow> pending w = None) \<and>
     (\<forall>h w. kept (sqlite3_close api (Some h) w) = kept w \<and> pending (sqlite3_close api (Some h) w) = None) \<and>
     (\<forall>f w. case sqlite3_open_v2 api f w of (err, h, w') \<Rightarrow>
        err = 0 \<and> h \<noteq> None \<and> kept w' = kept w \<and> pending w' = None)"

lemma sqlite_lawsD:
  assumes "sqlite_laws api kept pending ok"
  shows "begin_law api kept pending" "commit_law api kept pending" "statement_law api kept pending ok"
    "sqlite3_get_autocommit api (Some h) w \<longleftrightarrow> pending w = None"
    "kept (sqlite3_close api (Some h) w) = kept w" "pending (sqlite3_close api (Some h) w) = None"
  using assms by (simp_all add: sqlite_laws_def)

text \<open>The laws as facts on \<open>exec_once\<close>.\<close>

lemma exec_begin:
  assumes "sqlite_laws api kept pending ok" "db s = Some h"
  shows "kept (sq_world (exec_once api ''BEGIN'' s)) = kept (sq_world s)"
    "exec_ok api ''BEGIN'' s \<longleftrightarrow> pending (sq_world s) = None"
    "pending (sq_world (exec_once api ''BEGIN'' s)) = (case pending (sq_world s) of None \<Rightarrow> Some [] | Some q \<Rightarrow> Some q)"
  using sqlite_lawsD(1) [OF assms(1), unfolded begin_law_def, rule_format, where h = h and w = "sq_world s"] assms(2)
  by (auto simp: exec_once_def exec_ok_def case_prod_unfold split: option.splits)

lemma exec_commit:
  assumes "sqlite_laws api kept pending ok" "db s = Some h"
  shows "pending (sq_world (exec_once api ''COMMIT'' s)) = None"
    "exec_ok api ''COMMIT'' s \<longleftrightarrow> pending (sq_world s) \<noteq> None"
    "kept (sq_world (exec_once api ''COMMIT'' s)) =
       kept (sq_world s) @ (case pending (sq_world s) of None \<Rightarrow> [] | Some q \<Rightarrow> q)"
  using sqlite_lawsD(2) [OF assms(1), unfolded commit_law_def, rule_format, where h = h and w = "sq_world s"] assms(2)
  by (auto simp: exec_once_def exec_ok_def case_prod_unfold split: option.splits)

lemma exec_statement:
  assumes "sqlite_laws api kept pending ok" "db s = Some h" "sql \<in> ok"
  shows "exec_ok api sql s"
    "pending (sq_world (exec_once api sql s)) = map_option (\<lambda>q. q @ [sql]) (pending (sq_world s))"
    "kept (sq_world (exec_once api sql s)) =
       kept (sq_world s) @ (if pending (sq_world s) = None then [sql] else [])"
  using sqlite_lawsD(3) [OF assms(1), unfolded statement_law_def, THEN conjunct2, THEN conjunct2, rule_format,
      where h = h and w = "sq_world s" and sql = sql] assms(2,3)
  by (auto simp: exec_once_def exec_ok_def case_prod_unfold split: option.splits)

text \<open>All statements in force, permanent or not; and what holds between calls when \<^verbatim>\<open>autocommit=0\<close>.\<close>

definition in_force :: "('w \<Rightarrow> string list) \<Rightarrow> ('w \<Rightarrow> string list option) \<Rightarrow> 'w \<Rightarrow> string list" where
  "in_force kept pending w = kept w @ (case pending w of None \<Rightarrow> [] | Some q \<Rightarrow> q)"

definition batch_inv :: "('w \<Rightarrow> string list option) \<Rightarrow> ('h, 'w) logsqlite \<Rightarrow> bool" where
  "batch_inv pending s \<longleftrightarrow>
     \<not> autocommit s \<and> db s \<noteq> None \<and> 0 \<le> counter s \<and> counter s < 50 \<and>
     (case pending (sq_world s) of None \<Rightarrow> False | Some q \<Rightarrow> int (length q) \<le> counter s)"

lemma flush_once_keeps:
  "autocommit (flush_once api s) = autocommit s" "db (flush_once api s) = db s"
  "dbfile (flush_once api s) = dbfile s" "sq_fifo (flush_once api s) = sq_fifo s"
  "bgrunning (flush_once api s) = bgrunning s" "bgthread (flush_once api s) = bgthread s"
  by (simp_all add: flush_once_def)

lemma exec_flush_keeps [simp]:
  "autocommit (exec_flush api sql s) = autocommit s" "db (exec_flush api sql s) = db s"
  "dbfile (exec_flush api sql s) = dbfile s" "sq_fifo (exec_flush api sql s) = sq_fifo s"
  "bgrunning (exec_flush api sql s) = bgrunning s" "bgthread (exec_flush api sql s) = bgthread s"
  by (simp_all add: exec_flush_def flush_once_keeps)

lemma flush_once_view:
  assumes "sqlite_laws api kept pending ok" "db s = Some h"
  shows "in_force kept pending (sq_world (flush_once api s)) = in_force kept pending (sq_world s)"
    and "\<not> autocommit s \<Longrightarrow> pending (sq_world (flush_once api s)) = Some []"
    and "\<not> autocommit s \<Longrightarrow> counter s \<le> counter (flush_once api s) \<and> counter (flush_once api s) \<le> counter s + 2"
proof -
  define s1 where "s1 = (if pending (sq_world s) = None then s else exec_once api ''COMMIT'' s)"
  have f: "flush_once api s = (if autocommit s then s else exec_once api ''BEGIN'' s1)"
    using assms by (auto simp: flush_once_def s1_def sqlite_lawsD(4))
  have s1: "db s1 = Some h" "pending (sq_world s1) = None" "kept (sq_world s1) = in_force kept pending (sq_world s)"
    "counter s \<le> counter s1" "counter s1 \<le> counter s + 1"
    using assms by (auto simp: s1_def exec_commit in_force_def)
  note b = exec_begin [OF assms(1) s1(1)]
  show "in_force kept pending (sq_world (flush_once api s)) = in_force kept pending (sq_world s)"
    using s1 b by (simp add: f in_force_def)
  show "\<not> autocommit s \<Longrightarrow> pending (sq_world (flush_once api s)) = Some []" using s1 b by (simp add: f)
  show "\<not> autocommit s \<Longrightarrow> counter s \<le> counter (flush_once api s) \<and> counter (flush_once api s) \<le> counter s + 2"
    using s1 by (simp add: f)
qed

lemma exec_flush_statement:
  assumes "sqlite_laws api kept pending ok" "db s = Some h" "sql \<in> ok"
  shows "in_force kept pending (sq_world (exec_flush api sql s)) = in_force kept pending (sq_world s) @ [sql]"
    and "autocommit s \<Longrightarrow> pending (sq_world s) = None \<Longrightarrow> pending (sq_world (exec_flush api sql s)) = None"
    and "batch_inv pending s \<Longrightarrow> batch_inv pending (exec_flush api sql s)"
proof -
  note e = exec_statement [OF assms]
  let ?s1 = "(exec_once api sql s)\<lparr>counter := 0\<rparr>"
  have h: "db ?s1 = Some h" using assms(2) by simp
  note v = flush_once_view [OF assms(1) h]
  have w: "sq_world ?s1 = sq_world (exec_once api sql s)" by simp
  have i: "in_force kept pending (sq_world (exec_once api sql s)) = in_force kept pending (sq_world s) @ [sql]"
    using e by (auto simp: in_force_def split: option.split)
  show "in_force kept pending (sq_world (exec_flush api sql s)) = in_force kept pending (sq_world s) @ [sql]"
    using v(1) i by (simp add: exec_flush_def)
  show "autocommit s \<Longrightarrow> pending (sq_world s) = None \<Longrightarrow> pending (sq_world (exec_flush api sql s)) = None"
    using e by (simp add: exec_flush_def flush_once_def)
  show "batch_inv pending (exec_flush api sql s)" if inv: "batch_inv pending s"
  proof (cases "49 \<le> counter s")
    case True
    then have "exec_flush api sql s = flush_once api ?s1" using e by (simp add: exec_flush_def)
    then show ?thesis using v(2,3) inv by (simp add: batch_inv_def flush_once_keeps)
  next
    case False
    then have "exec_flush api sql s = exec_once api sql s" by (simp add: exec_flush_def)
    then show ?thesis using False inv e by (auto simp: batch_inv_def split: option.splits)
  qed
qed

text \<open>The background thread's work without the queue: one statement after the other.\<close>

fun db_exec_all :: "('h, 'w) sqlite3_api \<Rightarrow> string list \<Rightarrow> ('h, 'w) logsqlite \<Rightarrow> ('h, 'w) logsqlite option" where
  "db_exec_all api [] s = Some s"
| "db_exec_all api (sql # sqls) s = Option.bind (db_exec DEPTH api sql s) (\<lambda>(st, s'). db_exec_all api sqls s')"

lemma db_exec_depth:
  "db_exec DEPTH api sql s = Some (if exec_ok api sql s then PDNS_OK else PDNS_NO, exec_flush api sql s)"
  using db_exec_deep [of 0 api sql s] unfolding DEPTH_def numeral_2_eq_2 by simp



text \<open>Opening the database: the tables are created, and the first transaction begun.\<close>

lemma db_flush_depth:
  "db_flush DEPTH api s =
     Some (PDNS_OK,
       if autocommit s then s
       else exec_flush api ''BEGIN''
              (if sqlite3_get_autocommit api (db s) (sq_world s) then s else exec_flush api ''COMMIT'' s))"
  using db_exec_deep [of 0 api] unfolding DEPTH_def numeral_2_eq_2 by simp

lemma exec_flush_control:
  assumes "sqlite_laws api kept pending ok" "db s = Some h"
  shows "in_force kept pending (sq_world (exec_flush api ''BEGIN'' s)) = in_force kept pending (sq_world s)"
    and "in_force kept pending (sq_world (exec_flush api ''COMMIT'' s)) = in_force kept pending (sq_world s)"
proof -
  have h: "db ((exec_once api sql s)\<lparr>counter := 0\<rparr>) = Some h" for sql using assms(2) by simp
  have b: "in_force kept pending (sq_world (exec_once api ''BEGIN'' s)) = in_force kept pending (sq_world s)"
    using exec_begin [OF assms] by (simp add: in_force_def split: option.split)
  have c: "in_force kept pending (sq_world (exec_once api ''COMMIT'' s)) = in_force kept pending (sq_world s)"
    using exec_commit [OF assms] by (simp add: in_force_def)
  show "in_force kept pending (sq_world (exec_flush api ''BEGIN'' s)) = in_force kept pending (sq_world s)"
    using flush_once_view(1) [OF assms(1) h, of "''BEGIN''"] b by (simp add: exec_flush_def)
  show "in_force kept pending (sq_world (exec_flush api ''COMMIT'' s)) = in_force kept pending (sq_world s)"
    using flush_once_view(1) [OF assms(1) h, of "''COMMIT''"] c by (simp add: exec_flush_def)
qed

lemma db_open_view:
  assumes "sqlite_laws api kept pending ok" "SQL_CREATE_TABLE \<in> ok" "SQL_CREATE_INDEX \<in> ok"
  shows "\<exists>s'. db_open api file s = Some (PDNS_OK, s') \<and> db s' \<noteq> None \<and> sq_fifo s' = sq_fifo s \<and>
    in_force kept pending (sq_world s') = kept (sq_world s) @ [SQL_CREATE_TABLE, SQL_CREATE_INDEX]"
proof -
  obtain h w where o: "sqlite3_open_v2 api file (sq_world s) = (0, Some h, w)" "kept w = kept (sq_world s)" "pending w = None"
    using assms(1) by (auto simp: sqlite_laws_def split: prod.splits) (metis prod_cases3)
  let ?s1 = "s\<lparr>db := Some h, sq_world := w\<rparr>"
  let ?s2 = "exec_flush api SQL_CREATE_TABLE ?s1"
  let ?s3 = "exec_flush api SQL_CREATE_INDEX ?s2"
  have h: "db ?s1 = Some h" "db ?s2 = Some h" "db ?s3 = Some h" by simp_all
  have i: "in_force kept pending (sq_world ?s3) = kept (sq_world s) @ [SQL_CREATE_TABLE, SQL_CREATE_INDEX]"
    using exec_flush_statement(1) [OF assms(1) h(2) assms(3)] exec_flush_statement(1) [OF assms(1) h(1) assms(2)] o
    by (simp add: in_force_def)
  have hc: "db (exec_flush api ''COMMIT'' ?s3) = Some h" by simp
  show ?thesis
    using o h i exec_flush_control(1) [OF assms(1) h(3)] exec_flush_control(2) [OF assms(1) h(3)]
      exec_flush_control(1) [OF assms(1) hc]
    by (simp add: db_open_def db_exec_depth db_flush_depth Let_def del: db_flush.simps)
qed

lemma fifo_lock_unlock:
  assumes "fifo_q_wf q"
  obtains q' where "fifo_lock t q = Inr q'" "fifo_unlock t q' = q"
proof (cases q)
  case None
  with assms show thesis by (simp add: fifo_q_wf_def)
next
  case (Some f)
  then have m: "fifo_mutex f = mutex_init" using assms by (simp add: fifo_q_wf_def fifo_wf_def)
  show thesis
  proof
    show "fifo_lock t q = Inr (Some (f\<lparr>fifo_mutex := \<lparr>owner = Some t, depth = Suc 0\<rparr>\<rparr>))"
      using Some m by (simp add: fifo_lock_def mutex_cycle)
    show "fifo_unlock t (Some (f\<lparr>fifo_mutex := \<lparr>owner = Some t, depth = Suc 0\<rparr>\<rparr>)) = q"
      using Some m by (cases f) (simp add: fifo_unlock_def mutex_cycle)
  qed
qed


text \<open>
  Stopping the backend: it waits for the background thread and closes the database, which loses
  the statements of the open transaction and whatever is still on the queue. Stopping a backend
  that was disabled joins a thread that was never created, and stopping one whose thread has not
  yet run waits for ever.
\<close>

lemma logsqlite_stop_spec:
  assumes "sqlite_laws api kept pending ok" "db s \<noteq> None"
  shows "logsqlite_stop api s =
    (case bgthread s of
       Bg_None \<Rightarrow> Inl Bad_Join
     | Bg_Created \<Rightarrow> Inl Would_Block
     | _ \<Rightarrow> Inr (PDNS_OK, s\<lparr>bgrunning := False, bgthread := Bg_Done,
              sq_world := sqlite3_close api (db s) (sq_world s)\<rparr>)) \<and>
    in_force kept pending (sqlite3_close api (db s) (sq_world s)) = kept (sq_world s)"
proof -
  obtain h where "db s = Some h" using assms(2) by auto
  then show ?thesis
    using sqlite_lawsD(5,6) [OF assms(1)]
    by (cases "bgthread s")
      (simp_all add: logsqlite_stop_def bg_thread_stop_def db_close_def Let_def in_force_def)
qed

lemma mini_laws: "sqlite_laws mini_sqlite durable open_tx (- {''BEGIN'', ''COMMIT''})"
  by (auto simp: sqlite_laws_def begin_law_def commit_law_def statement_law_def mini_sqlite_def mini_exec_def
      split: option.splits)

lemma mini_create: "SQL_CREATE_TABLE \<in> - {''BEGIN'', ''COMMIT''}" "SQL_CREATE_INDEX \<in> - {''BEGIN'', ''COMMIT''}"
  by (simp_all add: SQL_CREATE_TABLE_def SQL_CREATE_INDEX_def)

definition mini_batch :: "(nat, mini_db) logsqlite" where
  "mini_batch = mini_state\<lparr>autocommit := False, counter := 3, sq_world := \<lparr>durable = [], open_tx = Some [''x'']\<rparr>\<rparr>"

lemma mini_batch_ok:
  "batch_inv open_tx mini_batch" "db mini_batch = Some 0" "fifo_q_wf (sq_fifo mini_batch)"
  "bgthread mini_batch = Bg_Loop"
  using mini_ok(4) by (simp_all add: batch_inv_def mini_batch_def mini_state_def)




section \<open>Producers and the background thread\<close>

text \<open>
  Any interleaving of the producers' pushes (thread \<open>t\<close>) and the background thread's rounds
  (thread \<open>tb\<close>).
\<close>

datatype sq_step = Producer sql_row | Consumer

fun sq_run ::
  "('h, 'w) sqlite3_api \<Rightarrow> bool \<Rightarrow> nat \<Rightarrow> nat \<Rightarrow> sq_step list \<Rightarrow> ('h, 'w) logsqlite \<Rightarrow> ('h, 'w) logsqlite res option" where
  "sq_run api nd t tb [] s = Some (Inr s)"
| "sq_run api nd t tb (Producer w # xs) s =
     (case push_row api nd True t w s of Inl e \<Rightarrow> Some (Inl e) | Inr s' \<Rightarrow> sq_run api nd t tb xs s')"
| "sq_run api nd t tb (Consumer # xs) s =
     Option.bind (bg_thread_round tb api s)
       (\<lambda>r. case r of Inl e \<Rightarrow> Some (Inl e) | Inr s' \<Rightarrow> sq_run api nd t tb xs s')"

definition step_op :: "('h, 'w) sqlite3_api \<Rightarrow> sq_step \<Rightarrow> string fifo_op" where
  "step_op api x = (case x of Producer w \<Rightarrow> Push (sql_insert api w) | Consumer \<Rightarrow> Pop)"

lemma step_op_simps [simp]: "step_op api (Producer w) = Push (sql_insert api w)" "step_op api Consumer = Pop"
  by (simp_all add: step_op_def)

definition produced :: "('h, 'w) sqlite3_api \<Rightarrow> sq_step list \<Rightarrow> string list" where
  "produced api xs = pushed (map (step_op api) xs)"

definition sq_ready :: "('h, 'w) logsqlite \<Rightarrow> bool" where
  "sq_ready s \<longleftrightarrow> fifo_q_wf (sq_fifo s) \<and> bgrunning s \<and> db s \<noteq> None"

lemma producer_step:
  assumes "memory_ok api" "sq_ready s"
  shows "\<exists>q. push_row api True True t w s = Inr (s\<lparr>sq_fifo := q\<rparr>) \<and> fifo_q_wf q \<and>
    fifo_q_content q = (case fifo_q_content (sq_fifo s) of None \<Rightarrow> Some (sql_insert api w) | Some x \<Rightarrow> Some x)"
proof -
  have wf: "fifo_q_wf (sq_fifo s)" using assms(2) by (simp add: sq_ready_def)
  have "\<exists>q. fifo_push_op True t (sql_insert api w) (sq_fifo s) = Inr q \<and> fifo_q_wf q \<and>
    fifo_q_content q = (case fifo_q_content (sq_fifo s) of None \<Rightarrow> Some (sql_insert api w) | Some x \<Rightarrow> Some x)"
    using ndebug_fifo.push_empty [OF wf] ndebug_fifo.push_full [OF wf]
    by (cases "fifo_q_content (sq_fifo s)") auto
  then show ?thesis
    using assms(1) by (auto simp: push_row_def fifo_push_op_def prepare_sql_def memory_ok_def)
qed

lemma consumer_step:
  assumes "sqlite_laws api kept pending ok" "sq_ready s" "\<And>x. fifo_q_content (sq_fifo s) = Some x \<Longrightarrow> x \<in> ok"
  shows "\<exists>s'. bg_thread_round tb api s = Some (Inr s') \<and> sq_ready s' \<and> fifo_q_content (sq_fifo s') = None \<and>
    in_force kept pending (sq_world s') =
      in_force kept pending (sq_world s) @ slot_list (fifo_q_content (sq_fifo s))"
proof -
  obtain q where q: "fifo_pop_item tb (sq_fifo s) = Inr (q, fifo_q_content (sq_fifo s))" "fifo_q_wf q" "fifo_q_content q = None"
    using ndebug_fifo.pop_spec [of "sq_fifo s" tb] assms(2) by (auto simp: sq_ready_def)
  let ?s1 = "s\<lparr>sq_fifo := q\<rparr>"
  show ?thesis
  proof (cases "fifo_q_content (sq_fifo s)")
    case None
    then show ?thesis using q assms(2) by (simp add: bg_thread_round_def sq_ready_def)
  next
    case (Some x)
    obtain h where h: "db ?s1 = Some h" using assms(2) by (auto simp: sq_ready_def)
    have "in_force kept pending (sq_world (exec_flush api x ?s1)) = in_force kept pending (sq_world s) @ [x]"
      using exec_flush_statement(1) [OF assms(1) h assms(3) [OF Some]] by simp
    then show ?thesis
      using q Some assms(2) by (simp add: bg_thread_round_def sq_ready_def db_exec_depth)
  qed
qed

lemma sq_run_slot:
  assumes "sqlite_laws api kept pending ok" "memory_ok api" "sq_ready s"
    and "range (sql_insert api) \<subseteq> ok" "\<And>x. fifo_q_content (sq_fifo s) = Some x \<Longrightarrow> x \<in> ok"
    and "slot_run (map (step_op api) xs) (fifo_q_content (sq_fifo s)) = (c, out)"
  shows "\<exists>s'. sq_run api True t tb xs s = Some (Inr s') \<and> sq_ready s' \<and> fifo_q_content (sq_fifo s') = c \<and>
    in_force kept pending (sq_world s') = in_force kept pending (sq_world s) @ out"
  using assms(3,5,6)
proof (induction xs arbitrary: s out)
  case Nil
  then show ?case by auto
next
  case (Cons x xs)
  show ?case
  proof (cases x)
    case (Producer w)
    obtain q where q: "push_row api True True t w s = Inr (s\<lparr>sq_fifo := q\<rparr>)" "fifo_q_wf q"
      "fifo_q_content q = (case fifo_q_content (sq_fifo s) of None \<Rightarrow> Some (sql_insert api w) | Some x \<Rightarrow> Some x)"
      using producer_step [OF assms(2) Cons.prems(1)] by blast
    have "sq_ready (s\<lparr>sq_fifo := q\<rparr>)" using Cons.prems(1) q(2) by (simp add: sq_ready_def)
    moreover have "y \<in> ok" if "fifo_q_content (sq_fifo (s\<lparr>sq_fifo := q\<rparr>)) = Some y" for y
      using that q(3) Cons.prems(2) assms(4) by (auto split: option.splits)
    moreover have "slot_run (map (step_op api) xs) (fifo_q_content (sq_fifo (s\<lparr>sq_fifo := q\<rparr>))) = (c, out)"
      using Cons.prems(3) q(3) Producer by simp
    ultimately show ?thesis
      using Cons.IH [of "s\<lparr>sq_fifo := q\<rparr>" out] q(1) Producer by auto
  next
    case Consumer
    obtain s1 where s1: "bg_thread_round tb api s = Some (Inr s1)" "sq_ready s1" "fifo_q_content (sq_fifo s1) = None"
      "in_force kept pending (sq_world s1) = in_force kept pending (sq_world s) @ slot_list (fifo_q_content (sq_fifo s))"
      using consumer_step [OF assms(1) Cons.prems(1)] Cons.prems(2) by blast
    obtain out' where o: "slot_run (map (step_op api) xs) None = (c, out')"
      "out = slot_list (fifo_q_content (sq_fifo s)) @ out'"
      using Cons.prems(3) Consumer by (auto split: prod.splits)
    show ?thesis
      using Cons.IH [OF s1(2), of out'] s1 o Consumer by auto
  qed
qed



end
