(* ===== verification/Protobuf_Stream.thy ===== *)
theory Protobuf_Stream
  imports Prelude
begin

text \<open>
  The receiving side, \<^verbatim>\<open>src/pdns-logger-protobuf.c\<close>: length-prefixed messages are cut out of a
  connection's buffer and handed to the loggers. \<open>unpack\<close> stands for \<^verbatim>\<open>pbdnsmessage__unpack\<close> of
  libprotobuf-c and \<open>log\<close> for \<^verbatim>\<open>pdns_loggers_log\<close>; both are parameters here. The first half is the
  code, the second half the specification by frames and the proof that segmentation of the byte
  stream does not matter.
\<close>

section \<open>Cutting messages out of the buffer\<close>

definition MAX_BUFFER_SIZE :: nat where
  "MAX_BUFFER_SIZE = 8192"

text \<open>A 16-bit load on a little-endian host, and the byte swap of \<^verbatim>\<open>ntohs\<close>.\<close>

definition load16 :: "u8 list \<Rightarrow> u16" where
  "load16 buf = of_nat (unat (buf ! 0) + 256 * unat (buf ! 1))"

definition ntohs :: "u16 \<Rightarrow> u16" where
  "ntohs w = of_nat (256 * (unat w mod 256) + unat w div 256)"

definition memmove_down :: "u8 list \<Rightarrow> nat \<Rightarrow> nat \<Rightarrow> u8 list" where
  "memmove_down buf k n = take n (drop k buf) @ drop n buf"

definition protobuf_parse ::
  "bool \<Rightarrow> (u8 list \<Rightarrow> 'm option) \<Rightarrow> ('m \<Rightarrow> 's \<Rightarrow> 's res) \<Rightarrow> u8 list \<Rightarrow> 's \<Rightarrow> (pdns_status \<times> 's) res" where
  "protobuf_parse nd unpack log buf s =
     (case unpack buf of
        None \<Rightarrow> assert0 nd (PDNS_NO, s)
      | Some msg \<Rightarrow> rbind (log msg s) (\<lambda>s'. Inr (PDNS_OK, s')))"

text \<open>The \<^verbatim>\<open>while (1)\<close> loop of \<^verbatim>\<open>protobuf_extract\<close>; the result of \<^verbatim>\<open>protobuf_parse\<close> is not looked at.\<close>

function protobuf_extract_loop ::
  "bool \<Rightarrow> (u8 list \<Rightarrow> 'm option) \<Rightarrow> ('m \<Rightarrow> 's \<Rightarrow> 's res) \<Rightarrow> u8 list \<Rightarrow> nat \<Rightarrow> 's \<Rightarrow>
     (pdns_status \<times> u8 list \<times> nat \<times> 's) res" where
  "protobuf_extract_loop nd unpack log buf blen s =
     (let plen = unat (ntohs (load16 buf)) in
      if plen + 2 \<le> blen then
        rbind (protobuf_parse nd unpack log (take plen (drop 2 buf)) s) (\<lambda>(st, s').
          let buf' = memmove_down buf (plen + 2) (blen - plen - 2);
              blen' = blen - plen - 2
          in if blen' = 0 then Inr (PDNS_OK, buf', blen', s')
             else protobuf_extract_loop nd unpack log buf' blen' s')
      else Inr (PDNS_RETRY, buf, blen, s))"
  by pat_completeness auto
termination
  by (relation "measure (\<lambda>(nd, unpack, log, buf, blen, s). blen)") auto

declare protobuf_extract_loop.simps [simp del]

definition protobuf_extract ::
  "bool \<Rightarrow> (u8 list \<Rightarrow> 'm option) \<Rightarrow> ('m \<Rightarrow> 's \<Rightarrow> 's res) \<Rightarrow> u8 list \<Rightarrow> nat \<Rightarrow> 's \<Rightarrow>
     (pdns_status \<times> u8 list \<times> nat \<times> 's) res" where
  "protobuf_extract nd unpack log buf blen s =
     (if blen < 2 then Inr (PDNS_RETRY, buf, blen, s)
      else protobuf_extract_loop nd unpack log buf blen s)"

section \<open>The connection thread\<close>

text \<open>
  What \<^verbatim>\<open>read\<close> meets on the socket, in order: bytes (in the segments they become available),
  the end of the stream, or an error. When the list is used up the thread waits in \<^verbatim>\<open>read\<close>.
\<close>

datatype sock_event = Sock_Data "u8 list" | Sock_Eof | Sock_Error

datatype thread_state = Waiting | Disconnected

definition store_at :: "u8 list \<Rightarrow> nat \<Rightarrow> u8 list \<Rightarrow> u8 list" where
  "store_at buf off bs = take off buf @ bs @ drop (off + length bs) buf"

function socket_thread_loop ::
  "bool \<Rightarrow> (u8 list \<Rightarrow> 'm option) \<Rightarrow> ('m \<Rightarrow> 's \<Rightarrow> 's res) \<Rightarrow> u8 list \<Rightarrow> nat \<Rightarrow> sock_event list \<Rightarrow> 's \<Rightarrow>
     (thread_state \<times> u8 list \<times> nat \<times> 's) res" where
  "socket_thread_loop nd unpack log buf bsize evs s =
     (if bsize = MAX_BUFFER_SIZE then Inr (Disconnected, buf, bsize, s)
      else case evs of
        [] \<Rightarrow> Inr (Waiting, buf, bsize, s)
      | Sock_Error # _ \<Rightarrow> Inr (Disconnected, buf, bsize, s)
      | Sock_Eof # _ \<Rightarrow> Inr (Disconnected, buf, bsize, s)
      | Sock_Data bs # evs' \<Rightarrow>
          let room = MAX_BUFFER_SIZE - bsize;
              got = take room bs;
              evs'' = (if drop room bs = [] then evs' else Sock_Data (drop room bs) # evs')
          in if got = [] then Inr (Disconnected, buf, bsize, s)
             else rbind (protobuf_extract nd unpack log (store_at buf bsize got) (bsize + length got) s)
               (\<lambda>(status, buf', bsize', s').
                  case status of
                    PDNS_NO \<Rightarrow> Inr (Disconnected, buf', bsize', s')
                  | PDNS_RETRY \<Rightarrow> socket_thread_loop nd unpack log buf' bsize' evs'' s'
                  | PDNS_OK \<Rightarrow> socket_thread_loop nd unpack log buf' bsize' evs'' s'
                  | PDNS_FORK \<Rightarrow> rbind (assert0 nd ()) (\<lambda>_.
                                  socket_thread_loop nd unpack log buf' bsize' evs'' s')))"
  by pat_completeness auto
termination
  by (relation "measure (\<lambda>(nd, unpack, log, buf, bsize, evs, s).
      sum_list (map (\<lambda>e. case e of Sock_Data bs \<Rightarrow> Suc (length bs) | _ \<Rightarrow> 1) evs))") auto

declare socket_thread_loop.simps [simp del]

section \<open>Frames\<close>

text \<open>The announced length, read from the first two bytes in network order.\<close>

definition hdr :: "u8 list \<Rightarrow> nat" where
  "hdr xs = 256 * unat (xs ! 0) + unat (xs ! 1)"

lemma byte_bound: "unat (b :: u8) < 256"
  using unsigned_less [where ?'a = nat, of b] by simp

lemma hdr_bound: "hdr xs < 65536"
  using byte_bound [of "xs ! 0"] byte_bound [of "xs ! 1"] by (simp add: hdr_def)

lemma unat_of_nat_u16: "n < 65536 \<Longrightarrow> unat (of_nat n :: u16) = n"
  by (simp add: unat_of_nat take_bit_eq_mod)

lemma unat_ntohs_load16: "unat (ntohs (load16 buf)) = hdr buf"
proof -
  have b: "unat (buf ! 0) < 256" "unat (buf ! 1) < 256" by (rule byte_bound)+
  then have "unat (buf ! 0) + 256 * unat (buf ! 1) < 65536" by linarith
  then have l: "unat (load16 buf) = unat (buf ! 0) + 256 * unat (buf ! 1)"
    unfolding load16_def by (rule unat_of_nat_u16)
  have "unat (ntohs (load16 buf)) = 256 * (unat (load16 buf) mod 256) + unat (load16 buf) div 256"
    unfolding ntohs_def by (rule unat_of_nat_u16) (use b l in auto)
  with b l show ?thesis by (simp add: hdr_def)
qed

text \<open>The specification: complete frames at the front, and the incomplete rest.\<close>

function split_frames :: "u8 list \<Rightarrow> u8 list list \<times> u8 list" where
  "split_frames xs =
     (if length xs < 2 \<or> length xs < hdr xs + 2 then ([], xs)
      else case split_frames (drop (hdr xs + 2) xs) of
             (ps, r) \<Rightarrow> (take (hdr xs) (drop 2 xs) # ps, r))"
  by pat_completeness auto
termination
  by (relation "measure length") auto

declare split_frames.simps [simp del]

lemma split_frames_short: "length xs < 2 \<or> length xs < hdr xs + 2 \<Longrightarrow> split_frames xs = ([], xs)"
  by (simp add: split_frames.simps [of xs])

lemma split_frames_step:
  "2 \<le> length xs \<Longrightarrow> hdr xs + 2 \<le> length xs \<Longrightarrow> split_frames (drop (hdr xs + 2) xs) = (ps, r) \<Longrightarrow>
     split_frames xs = (take (hdr xs) (drop 2 xs) # ps, r)"
  by (simp add: split_frames.simps [of xs])

lemma hdr_append: "2 \<le> length xs \<Longrightarrow> hdr (xs @ ys) = hdr xs"
  by (auto simp: hdr_def nth_append)

lemma hdr_take: "2 \<le> n \<Longrightarrow> hdr (take n xs) = hdr xs"
  by (simp add: hdr_def)

text \<open>Extracting a frame needs more bytes only for the rest: the split is incremental.\<close>

lemma split_frames_append:
  "split_frames xs = (ps, r) \<Longrightarrow> split_frames (r @ ys) = (qs, r') \<Longrightarrow> split_frames (xs @ ys) = (ps @ qs, r')"
proof (induction xs arbitrary: ps rule: split_frames.induct)
  case (1 xs)
  show ?case
  proof (cases "length xs < 2 \<or> length xs < hdr xs + 2")
    case True
    with "1.prems" show ?thesis by (simp add: split_frames_short)
  next
    case False
    obtain ps' where d: "split_frames (drop (hdr xs + 2) xs) = (ps', r)"
      and ps: "ps = take (hdr xs) (drop 2 xs) # ps'"
      using "1.prems"(1) False by (auto simp: split_frames.simps [of xs] split: prod.splits)
    have "split_frames (drop (hdr xs + 2) xs @ ys) = (ps' @ qs, r')"
      using "1.IH" [OF False d "1.prems"(2)] .
    moreover have "drop (hdr (xs @ ys) + 2) (xs @ ys) = drop (hdr xs + 2) xs @ ys"
      using False by (simp add: hdr_append)
    ultimately have "split_frames (xs @ ys) = (take (hdr (xs @ ys)) (drop 2 (xs @ ys)) # (ps' @ qs), r')"
      using False by (intro split_frames_step) (auto simp: hdr_append)
    with False ps show ?thesis by (simp add: hdr_append)
  qed
qed

lemma split_frames_rest: "split_frames xs = (ps, r) \<Longrightarrow> length r < 2 \<or> length r < hdr r + 2"
proof (induction xs arbitrary: ps rule: split_frames.induct)
  case (1 xs)
  show ?case
  proof (cases "length xs < 2 \<or> length xs < hdr xs + 2")
    case True
    with "1.prems" show ?thesis by (simp add: split_frames_short)
  next
    case False
    with 1 show ?thesis by (auto simp: split_frames.simps [of xs] split: prod.splits)
  qed
qed

text \<open>A frame as the recursor sends it.\<close>

definition frame :: "u8 list \<Rightarrow> u8 list" where
  "frame p = [of_nat (length p div 256), of_nat (length p mod 256)] @ p"

lemma hdr_frame: "length p < 65536 \<Longrightarrow> hdr (frame p @ xs) = length p"
  by (simp add: hdr_def frame_def unat_of_nat take_bit_eq_mod)

lemma split_frames_frames:
  assumes "\<And>p. p \<in> set ps \<Longrightarrow> length p < 65536" "split_frames r = ([], r)"
  shows "split_frames (concat (map frame ps) @ r) = (ps, r)"
  using assms(1)
proof (induction ps)
  case Nil
  show ?case using assms(2) by simp
next
  case (Cons p ps)
  let ?xs = "frame p @ concat (map frame ps) @ r"
  have h: "hdr ?xs = length p" using Cons.prems by (simp add: hdr_frame)
  have "split_frames (drop (hdr ?xs + 2) ?xs) = (ps, r)"
  proof -
    have "drop (hdr ?xs + 2) ?xs = concat (map frame ps) @ r"
      unfolding h by (simp add: frame_def)
    with Cons show ?thesis by simp
  qed
  then have "split_frames ?xs = (take (hdr ?xs) (drop 2 ?xs) # ps, r)"
    by (rule split_frames_step [rotated 2]) (simp_all add: h, simp_all add: frame_def)
  moreover have "take (hdr ?xs) (drop 2 ?xs) = p" unfolding h by (simp add: frame_def)
  ultimately show ?case by simp
qed

section \<open>Extraction against the specification\<close>

text \<open>What the program does with the payload of one frame.\<close>

definition handle_frame ::
  "bool \<Rightarrow> (u8 list \<Rightarrow> 'm option) \<Rightarrow> ('m \<Rightarrow> 's \<Rightarrow> 's res) \<Rightarrow> u8 list \<Rightarrow> 's \<Rightarrow> 's res" where
  "handle_frame nd unpack log p s = rbind (protobuf_parse nd unpack log p s) (\<lambda>(st, s'). Inr s')"

lemma memmove_down_take:
  "k + n \<le> length buf \<Longrightarrow> take n (memmove_down buf k n) = take n (drop k buf)"
  by (simp add: memmove_down_def)

lemma length_memmove_down: "k + n \<le> length buf \<Longrightarrow> length (memmove_down buf k n) = length buf"
  by (simp add: memmove_down_def)

text \<open>The buffer after the loop: a function of the buffer alone, whatever the loggers do.\<close>

function compact :: "u8 list \<Rightarrow> nat \<Rightarrow> u8 list" where
  "compact buf blen =
     (if hdr buf + 2 \<le> blen
      then compact (memmove_down buf (hdr buf + 2) (blen - hdr buf - 2)) (blen - hdr buf - 2)
      else buf)"
  by pat_completeness auto
termination
  by (relation "measure snd") auto

declare compact.simps [simp del]

lemma compact_done: "blen < hdr buf + 2 \<Longrightarrow> compact buf blen = buf"
  by (simp add: compact.simps [of buf])

lemma split_frames_take_step:
  assumes "split_frames (take blen buf) = (ps, r)" "blen \<le> length buf" "hdr buf + 2 \<le> blen"
  defines "buf1 \<equiv> memmove_down buf (hdr buf + 2) (blen - hdr buf - 2)"
  obtains ps' where "ps = take (hdr buf) (drop 2 buf) # ps'"
    "split_frames (take (blen - hdr buf - 2) buf1) = (ps', r)" "length buf1 = length buf"
proof -
  have h: "hdr (take blen buf) = hdr buf" using assms(3) by (simp add: hdr_take)
  have t: "take (hdr buf) (drop 2 (take blen buf)) = take (hdr buf) (drop 2 buf)"
    using assms(3) by (simp add: drop_take min_def)
  have d: "take (blen - hdr buf - 2) buf1 = drop (hdr buf + 2) (take blen buf)"
    using assms(2,3) by (simp add: buf1_def memmove_down_take drop_take)
  obtain ps' r' where s: "split_frames (drop (hdr buf + 2) (take blen buf)) = (ps', r')" by fastforce
  then have "split_frames (take blen buf) = (take (hdr buf) (drop 2 buf) # ps', r')"
    using split_frames_step [of "take blen buf" ps' r'] assms(2,3) h t by simp
  moreover have "length buf1 = length buf" using assms(2,3) by (simp add: buf1_def length_memmove_down)
  ultimately show ?thesis using assms(1) s d that [of ps'] by simp
qed

lemma compact_split:
  assumes "split_frames (take blen buf) = (ps, r)" "blen \<le> length buf" "2 \<le> length buf"
  shows "length (compact buf blen) = length buf \<and> take (length r) (compact buf blen) = r \<and> length r \<le> blen"
  using assms
proof (induction buf blen arbitrary: ps rule: compact.induct)
  case (1 buf blen)
  show ?case
  proof (cases "hdr buf + 2 \<le> blen")
    case False
    then have "length (take blen buf) < 2 \<or> length (take blen buf) < hdr (take blen buf) + 2"
      using "1.prems" by (cases "blen < 2") (auto simp: hdr_take)
    with "1.prems"(1) have "r = take blen buf" by (simp add: split_frames_short)
    with False "1.prems" show ?thesis by (simp add: compact_done)
  next
    case True
    let ?buf1 = "memmove_down buf (hdr buf + 2) (blen - hdr buf - 2)"
    obtain ps' where ps': "split_frames (take (blen - hdr buf - 2) ?buf1) = (ps', r)" "length ?buf1 = length buf"
      using split_frames_take_step [OF "1.prems"(1,2) True] by metis
    have "compact buf blen = compact ?buf1 (blen - hdr buf - 2)"
      using True by (simp add: compact.simps [of buf])
    moreover have "length (compact ?buf1 (blen - hdr buf - 2)) = length ?buf1 \<and>
        take (length r) (compact ?buf1 (blen - hdr buf - 2)) = r \<and> length r \<le> blen - hdr buf - 2"
      using ps' "1.prems" by (intro "1.IH" [OF True]) auto
    ultimately show ?thesis using ps'(2) by auto
  qed
qed

lemma extract_loop_split:
  assumes "split_frames (take blen buf) = (ps, r)" "0 < blen" "blen \<le> length buf" "2 \<le> length buf"
  shows "protobuf_extract_loop nd unpack log buf blen s =
      rbind (rfold (handle_frame nd unpack log) ps s)
        (\<lambda>s'. Inr (if r = [] then PDNS_OK else PDNS_RETRY, compact buf blen, length r, s'))"
  using assms
proof (induction blen arbitrary: buf ps s rule: less_induct)
  case (less blen)
  show ?case
  proof (cases "hdr buf + 2 \<le> blen")
    case False
    then have "length (take blen buf) < 2 \<or> length (take blen buf) < hdr (take blen buf) + 2"
      using less.prems by (cases "blen < 2") (auto simp: hdr_take)
    then have "ps = []" "r = take blen buf"
      using less.prems(1) by (simp_all add: split_frames_short)
    with False less.prems show ?thesis
      by (auto simp: protobuf_extract_loop.simps [of _ _ _ buf] unat_ntohs_load16 compact_done)
  next
    case True
    let ?blen = "blen - hdr buf - 2" and ?buf1 = "memmove_down buf (hdr buf + 2) (blen - hdr buf - 2)"
    obtain ps' where ps: "ps = take (hdr buf) (drop 2 buf) # ps'"
      and d: "split_frames (take ?blen ?buf1) = (ps', r)" "length ?buf1 = length buf"
      using split_frames_take_step [OF less.prems(1,3) True] by metis
    have c: "compact buf blen = compact ?buf1 ?blen"
      using True by (simp add: compact.simps [of buf])
    have "protobuf_extract_loop nd unpack log buf blen s =
      rbind (handle_frame nd unpack log (take (hdr buf) (drop 2 buf)) s) (\<lambda>s'.
        if ?blen = 0 then Inr (PDNS_OK, ?buf1, ?blen, s') else protobuf_extract_loop nd unpack log ?buf1 ?blen s')"
      by (subst protobuf_extract_loop.simps)
        (simp only: unat_ntohs_load16 Let_def True if_True handle_frame_def rbind_assoc split_def rbind_simps)
    also have "\<dots> = rbind (handle_frame nd unpack log (take (hdr buf) (drop 2 buf)) s) (\<lambda>s'.
        rbind (rfold (handle_frame nd unpack log) ps' s')
          (\<lambda>s'. Inr (if r = [] then PDNS_OK else PDNS_RETRY, compact buf blen, length r, s')))"
    proof (cases "?blen = 0")
      case True
      then have "ps' = []" "r = []" using d by (auto simp: split_frames_short)
      moreover have "compact ?buf1 0 = ?buf1" by (rule compact_done) simp
      ultimately show ?thesis using True c by simp
    next
      case False
      then have "protobuf_extract_loop nd unpack log ?buf1 ?blen s' =
          rbind (rfold (handle_frame nd unpack log) ps' s')
            (\<lambda>s'. Inr (if r = [] then PDNS_OK else PDNS_RETRY, compact ?buf1 ?blen, length r, s'))" for s'
        using less.prems d True by (intro less.IH) auto
      with False c show ?thesis by simp
    qed
    finally show ?thesis by (simp add: ps rbind_assoc)
  qed
qed

text \<open>One call of \<^verbatim>\<open>protobuf_extract\<close>, short buffers included.\<close>

lemma protobuf_extract_split:
  assumes "split_frames (take blen buf) = (ps, r)" "blen \<le> length buf" "2 \<le> length buf"
  shows "protobuf_extract nd unpack log buf blen s =
      rbind (rfold (handle_frame nd unpack log) ps s)
        (\<lambda>s'. Inr (if r = [] \<and> blen \<noteq> 0 then PDNS_OK else PDNS_RETRY, compact buf blen, length r, s'))"
proof (cases "blen < 2")
  case True
  then have "split_frames (take blen buf) = ([], take blen buf)" by (intro split_frames_short disjI1) auto
  then have "ps = []" "r = take blen buf" using assms(1) by simp_all
  moreover have "compact buf blen = buf" using True by (intro compact_done) simp
  moreover have "r = [] \<longleftrightarrow> blen = 0" using assms \<open>r = take blen buf\<close> by auto
  ultimately show ?thesis using True assms(2) by (auto simp: protobuf_extract_def)
next
  case False
  then show ?thesis
    using extract_loop_split [OF assms(1) _ assms(2,3), of nd unpack log s] by (simp add: protobuf_extract_def)
qed

section \<open>Connections\<close>

text \<open>Every frame of the stream fits into the buffer.\<close>

function frames_fit :: "u8 list \<Rightarrow> bool" where
  "frames_fit xs \<longleftrightarrow>
     length xs < 2 \<or>
     hdr xs + 2 \<le> MAX_BUFFER_SIZE \<and> (hdr xs + 2 \<le> length xs \<longrightarrow> frames_fit (drop (hdr xs + 2) xs))"
  by pat_completeness auto
termination
  by (relation "measure length") auto

declare frames_fit.simps [simp del]

lemma frames_fit_rest:
  "split_frames xs = (ps, r) \<Longrightarrow> frames_fit (xs @ ys) \<Longrightarrow> frames_fit (r @ ys)"
proof (induction xs arbitrary: ps rule: split_frames.induct)
  case (1 xs)
  show ?case
  proof (cases "length xs < 2 \<or> length xs < hdr xs + 2")
    case True
    with "1.prems" show ?thesis by (simp add: split_frames_short)
  next
    case False
    then obtain ps' where "split_frames (drop (hdr xs + 2) xs) = (ps', r)"
      using "1.prems"(1) by (auto simp: split_frames.simps [of xs] split: prod.splits)
    moreover have "frames_fit (drop (hdr xs + 2) xs @ ys)"
      using "1.prems"(2) False by (auto simp: frames_fit.simps [of "xs @ ys"] hdr_append)
    ultimately show ?thesis using "1.IH" False by blast
  qed
qed

lemma frames_fit_room:
  assumes "split_frames xs = (ps, r)" "frames_fit (xs @ ys)"
  shows "length r < MAX_BUFFER_SIZE"
proof (cases "length r < 2")
  case True
  then show ?thesis by (simp add: MAX_BUFFER_SIZE_def)
next
  case False
  then have "hdr r + 2 \<le> MAX_BUFFER_SIZE"
    using frames_fit_rest [OF assms] by (auto simp: frames_fit.simps [of "r @ ys"] hdr_append)
  moreover have "length r < hdr r + 2" using split_frames_rest [OF assms(1)] False by blast
  ultimately show ?thesis by simp
qed

text \<open>
  One turn of the reading loop, seen from the stream: the buffered rest \<open>r0\<close> and the bytes that
  fit are split, the complete frames are handled, the rest stays at the front of the buffer.
\<close>

definition next_events :: "nat \<Rightarrow> u8 list \<Rightarrow> sock_event list \<Rightarrow> sock_event list" where
  "next_events room bs evs = (if drop room bs = [] then evs else Sock_Data (drop room bs) # evs)"

lemma take_store_at: "off \<le> length buf \<Longrightarrow> take (off + length bs) (store_at buf off bs) = take off buf @ bs"
  by (simp add: store_at_def)

lemma length_store_at: "off + length bs \<le> length buf \<Longrightarrow> length (store_at buf off bs) = length buf"
  by (simp add: store_at_def)

lemma thread_loop_turn:
  assumes buf: "length buf = MAX_BUFFER_SIZE" "take (length r0) buf = r0" and r0: "length r0 < MAX_BUFFER_SIZE"
    and bs: "bs \<noteq> []" and split: "split_frames (r0 @ take (MAX_BUFFER_SIZE - length r0) bs) = (ps, r)"
  shows "\<exists>buf'. length buf' = MAX_BUFFER_SIZE \<and> take (length r) buf' = r \<and>
    (\<forall>s. socket_thread_loop nd unpack log buf (length r0) (Sock_Data bs # evs) s =
       rbind (rfold (handle_frame nd unpack log) ps s)
         (socket_thread_loop nd unpack log buf' (length r) (next_events (MAX_BUFFER_SIZE - length r0) bs evs)))"
proof -
  let ?room = "MAX_BUFFER_SIZE - length r0"
  let ?got = "take ?room bs"
  let ?n = "length r0 + length ?got" and ?b = "store_at buf (length r0) ?got"
  have n: "?n \<le> MAX_BUFFER_SIZE" "?got \<noteq> []" using r0 bs by auto
  then have b: "length ?b = MAX_BUFFER_SIZE" "take ?n ?b = r0 @ ?got"
    using buf r0 take_store_at [of "length r0" buf ?got] by (simp_all add: length_store_at)
  have sp: "split_frames (take ?n ?b) = (ps, r)" using split b by simp
  have two: "2 \<le> length ?b" using b by (simp add: MAX_BUFFER_SIZE_def)
  have "socket_thread_loop nd unpack log buf (length r0) (Sock_Data bs # evs) s =
       rbind (rfold (handle_frame nd unpack log) ps s)
         (socket_thread_loop nd unpack log (compact ?b ?n) (length r) (next_events ?room bs evs))" for s
    using r0 n protobuf_extract_split [OF sp _ two, of nd unpack log s] b
    by (simp add: socket_thread_loop.simps [of _ _ _ _ "length r0"] Let_def rbind_assoc next_events_def)
  then show ?thesis using compact_split [OF sp _ two] b n by auto
qed

text \<open>
  Induction over the bytes still to come: reading a sequence of non-empty segments is handling
  the frames of the stream in order, and then going on with whatever follows.
\<close>

lemma thread_loop_segments:
  assumes "length buf = MAX_BUFFER_SIZE" "take (length r0) buf = r0" "split_frames r0 = ([], r0)"
    "[] \<notin> set chunks" "frames_fit (r0 @ concat chunks)" "split_frames (r0 @ concat chunks) = (ps, r)"
  shows "\<exists>buf'. length buf' = MAX_BUFFER_SIZE \<and> take (length r) buf' = r \<and>
    (\<forall>s. socket_thread_loop nd unpack log buf (length r0) (map Sock_Data chunks @ evs) s =
       rbind (rfold (handle_frame nd unpack log) ps s) (socket_thread_loop nd unpack log buf' (length r) evs))"
  using assms
proof (induction "length (concat chunks)" arbitrary: chunks buf r0 ps rule: less_induct)
  case less
  show ?case
  proof (cases chunks)
    case Nil
    with less.prems have "ps = []" "r = r0" by simp_all
    with less.prems Nil show ?thesis by (intro exI [of _ buf]) auto
  next
    case (Cons c cs)
    let ?room = "MAX_BUFFER_SIZE - length r0"
    let ?got = "take ?room c" and ?cs = "(if drop ?room c = [] then cs else drop ?room c # cs)"
    have c: "c \<noteq> []" "[] \<notin> set cs" using less.prems Cons by auto
    have r0: "length r0 < MAX_BUFFER_SIZE" using frames_fit_room [OF less.prems(3,5)] .
    obtain ps1 r1 where sp1: "split_frames (r0 @ ?got) = (ps1, r1)" by fastforce
    have total: "concat chunks = ?got @ concat ?cs" using Cons by auto
    then have short: "length (concat ?cs) < length (concat chunks)" using r0 c by auto
    obtain ps2 r2 where sp2: "split_frames (r1 @ concat ?cs) = (ps2, r2)" by fastforce
    have "split_frames (r0 @ concat chunks) = (ps1 @ ps2, r2)"
      using split_frames_append [OF sp1 sp2] total by simp
    with less.prems(6) have ps: "ps = ps1 @ ps2" "r2 = r" by auto
    have fit: "frames_fit (r1 @ concat ?cs)"
      using frames_fit_rest [OF sp1, of "concat ?cs"] less.prems(5) total by simp
    have inc: "split_frames r1 = ([], r1)"
      using split_frames_rest [OF sp1] by (rule split_frames_short)
    have ne: "[] \<notin> set ?cs" using c by auto
    have evs: "next_events ?room c (map Sock_Data cs @ evs) = map Sock_Data ?cs @ evs"
      by (simp add: next_events_def)
    obtain buf1 where buf1: "length buf1 = MAX_BUFFER_SIZE" "take (length r1) buf1 = r1"
      "\<And>s. socket_thread_loop nd unpack log buf (length r0) (map Sock_Data chunks @ evs) s =
        rbind (rfold (handle_frame nd unpack log) ps1 s)
          (socket_thread_loop nd unpack log buf1 (length r1) (map Sock_Data ?cs @ evs))"
      using thread_loop_turn [OF less.prems(1,2) r0 c(1) sp1, of nd unpack log "map Sock_Data cs @ evs"] Cons
      unfolding evs by auto
    obtain buf2 where buf2: "length buf2 = MAX_BUFFER_SIZE" "take (length r2) buf2 = r2"
      "\<And>s. socket_thread_loop nd unpack log buf1 (length r1) (map Sock_Data ?cs @ evs) s =
        rbind (rfold (handle_frame nd unpack log) ps2 s) (socket_thread_loop nd unpack log buf2 (length r2) evs)"
      using less.hyps [OF short buf1(1,2) inc ne fit sp2 [unfolded ps(2)]] ps(2) by auto
    have "socket_thread_loop nd unpack log buf1 (length r1) (map Sock_Data ?cs @ evs) =
      (\<lambda>s. rbind (rfold (handle_frame nd unpack log) ps2 s) (socket_thread_loop nd unpack log buf2 (length r2) evs))"
      using buf2(3) by (rule ext)
    with buf1(3) ps buf2(1,2) show ?thesis
      by (intro exI [of _ buf2]) (auto simp: rfold_append rbind_assoc)
  qed
qed

lemma frames_fit_frames:
  "(\<And>p. p \<in> set ps \<Longrightarrow> length p + 2 \<le> MAX_BUFFER_SIZE) \<Longrightarrow> frames_fit (concat (map frame ps))"
proof (induction ps)
  case Nil
  show ?case by (subst frames_fit.simps) simp
next
  case (Cons p ps)
  let ?xs = "frame p @ concat (map frame ps)"
  have "length p < 65536" using Cons.prems [of p] by (simp add: MAX_BUFFER_SIZE_def)
  then have h: "hdr ?xs = length p" by (rule hdr_frame)
  have "drop (hdr ?xs + 2) ?xs = concat (map frame ps)" unfolding h by (simp add: frame_def)
  with Cons h have "frames_fit ?xs" by (subst frames_fit.simps) simp
  then show ?case by simp
qed

lemma split_frames_Nil [simp]: "split_frames [] = ([], [])"
  by (simp add: split_frames_short)

lemma connection_frames:
  assumes "length stack = MAX_BUFFER_SIZE" "\<forall>p \<in> set ps. length p + 2 \<le> MAX_BUFFER_SIZE"
    "[] \<notin> set chunks" "concat chunks = concat (map frame ps)"
  shows "rbind (socket_thread_loop nd unpack log stack 0 (map Sock_Data chunks @ [Sock_Eof]) s)
           (\<lambda>(st, b, n, s'). Inr (st, n, s')) =
         rbind (rfold (handle_frame nd unpack log) ps s) (\<lambda>s'. Inr (Disconnected, 0, s'))"
proof -
  have "\<And>p. p \<in> set ps \<Longrightarrow> length p < 65536" using assms(2) by (force simp: MAX_BUFFER_SIZE_def)
  then have sp: "split_frames ([] @ concat chunks) = (ps, [])"
    using split_frames_frames [of ps "[]"] assms(4) by simp
  have fit: "frames_fit ([] @ concat chunks)" using frames_fit_frames [of ps] assms(2,4) by auto
  obtain b where "\<And>s. socket_thread_loop nd unpack log stack 0 (map Sock_Data chunks @ [Sock_Eof]) s =
      rbind (rfold (handle_frame nd unpack log) ps s) (socket_thread_loop nd unpack log b 0 [Sock_Eof])"
    using thread_loop_segments [OF assms(1) _ _ assms(3) fit sp, of nd unpack log "[Sock_Eof]"] by auto
  then show ?thesis
    by (simp add: rbind_assoc socket_thread_loop.simps [of _ _ _ _ _ "[Sock_Eof]"] MAX_BUFFER_SIZE_def)
qed

text \<open>
  C3. A connection delivers what the peer sends: when the bytes of a connection are the frames
  of the payloads \<open>ps\<close> (each of at most 8190 bytes), cut into arbitrary non-empty segments and
  followed by the end of the stream, the thread unpacks and logs exactly these payloads, in
  order, each once, and then disconnects; whatever the stack buffer held before.
\<close>

theorem connection_delivers_payloads:
  assumes "length stack = MAX_BUFFER_SIZE" "\<forall>p \<in> set ps. length p + 2 \<le> MAX_BUFFER_SIZE"
    "[] \<notin> set chunks" "concat chunks = concat (map frame ps)"
  shows "rbind (socket_thread_loop nd unpack log stack 0 (map Sock_Data chunks @ [Sock_Eof]) s)
           (\<lambda>(st, b, n, s'). Inr (st, n, s')) =
         rbind (rfold (handle_frame nd unpack log) ps s) (\<lambda>s'. Inr (Disconnected, 0, s'))"
  using assms by (rule connection_frames)

theorem connection_delivers_payloads_witness:
  "rbind (socket_thread_loop True (\<lambda>p. Some p) (\<lambda>m s. Inr (s @ [m])) (replicate 8192 (7 :: u8)) 0
      (map Sock_Data [[0], [2, 10], [11, 0, 1, 12]] @ [Sock_Eof]) []) (\<lambda>(st, b, n, s'). Inr (st, n, s')) =
    Inr (Disconnected, 0, [[10, 11], [12]])"
proof -
  have "frame [10, 11] @ frame [12] = concat [[0], [2, 10], [11, 0, 1, 12]]" by (simp add: frame_def)
  then have "rbind (socket_thread_loop True (\<lambda>p. Some p) (\<lambda>m s. Inr (s @ [m])) (replicate 8192 (7 :: u8)) 0
      (map Sock_Data [[0], [2, 10], [11, 0, 1, 12]] @ [Sock_Eof]) []) (\<lambda>(st, b, n, s'). Inr (st, n, s')) =
    rbind (rfold (handle_frame True (\<lambda>p. Some p) (\<lambda>m s. Inr (s @ [m]))) [[10, 11], [12]] [])
      (\<lambda>s'. Inr (Disconnected, 0, s'))"
    by (intro connection_delivers_payloads) (simp_all add: MAX_BUFFER_SIZE_def)
  then show ?thesis by (simp add: handle_frame_def protobuf_parse_def)
qed

text \<open>
  C4. One call of \<^verbatim>\<open>protobuf_extract\<close> on any buffer state: it handles the complete frames at the
  front of the valid bytes in order, moves the incomplete rest to the front and returns its
  length; it reports success exactly when bytes were there and none are left. What lies in the
  buffer beyond the valid bytes has no influence, although the loop reads it when one byte is
  left.
\<close>

theorem extract_spec:
  assumes "length buf = MAX_BUFFER_SIZE" "blen \<le> MAX_BUFFER_SIZE" "split_frames (take blen buf) = (ps, r)"
  shows "rbind (protobuf_extract nd unpack log buf blen s) (\<lambda>(st, b, n, s'). Inr (st, take n b, n, s')) =
    rbind (rfold (handle_frame nd unpack log) ps s)
      (\<lambda>s'. Inr (if r = [] \<and> blen \<noteq> 0 then PDNS_OK else PDNS_RETRY, r, length r, s'))"
proof -
  have b: "blen \<le> length buf" "2 \<le> length buf" using assms by (simp_all add: MAX_BUFFER_SIZE_def)
  show ?thesis
    using protobuf_extract_split [OF assms(3) b, of nd unpack log s] compact_split [OF assms(3) b]
    by (simp add: rbind_assoc)
qed

theorem extract_spec_witness:
  "rbind (protobuf_extract True Some (\<lambda>m s. Inr (s @ [m])) ([0, 1, 65, 0] @ replicate 8188 9) 4 [])
      (\<lambda>(st, b, n, s'). Inr (st, take n b, n, s')) =
    Inr (PDNS_RETRY, [0], 1, [[65]])"
proof -
  have h: "hdr [0, 1, 65, 0] = 1" by (simp add: hdr_def)
  have "split_frames [0, 1, 65, 0] = (take (hdr [0, 1, 65, 0]) (drop 2 [0, 1, 65, 0]) # [], [0 :: u8])"
    by (rule split_frames_step) (simp_all add: h split_frames_short)
  then have "split_frames (take 4 ([0, 1, 65, 0] @ replicate 8188 9)) = ([[65]], [0 :: u8])"
    by (simp add: h)
  from extract_spec [OF _ _ this, of True Some "\<lambda>m s. Inr (s @ [m])" "[]"]
  show ?thesis by (simp add: MAX_BUFFER_SIZE_def handle_frame_def protobuf_parse_def)
qed

section \<open>Oversized frames\<close>

lemma split_incomplete_prefix:
  assumes "hdr big + 2 > MAX_BUFFER_SIZE" "big = y @ z" "length y \<le> MAX_BUFFER_SIZE"
  shows "split_frames y = ([], y)"
proof (rule split_frames_short)
  show "length y < 2 \<or> length y < hdr y + 2"
    using assms hdr_append [of y z] by (cases "length y < 2") auto
qed

text \<open>
  The next state of the induction below: after one read either the good prefix shrinks, or it
  is used up and the buffer holds the beginning of the oversized frame.
\<close>

lemma oversize_turn:
  assumes total: "xs @ ys = pre @ big" and pre: "split_frames pre = (ps, [])" "frames_fit pre"
    and big: "hdr big + 2 > MAX_BUFFER_SIZE" and xs: "length xs \<le> MAX_BUFFER_SIZE"
  obtains ps1 r1 ps2 pre2 where "split_frames xs = (ps1, r1)" "split_frames pre2 = (ps2, [])" "frames_fit pre2"
    "ps = ps1 @ ps2" "r1 @ ys = pre2 @ big" "length r1 \<le> MAX_BUFFER_SIZE"
proof (cases "length xs \<le> length pre")
  case True
  then obtain x where x: "pre = xs @ x" "ys = x @ big"
    using append_eq_split [OF total] by blast
  obtain ps1 r1 where s1: "split_frames xs = (ps1, r1)" by fastforce
  obtain ps2 r2 where s2: "split_frames (r1 @ x) = (ps2, r2)" by fastforce
  have "ps = ps1 @ ps2" "r2 = []" using split_frames_append [OF s1 s2] pre(1) x by simp_all
  moreover have "frames_fit (r1 @ x)" using frames_fit_rest [OF s1] pre(2) x by blast
  moreover have "length r1 \<le> MAX_BUFFER_SIZE" using frames_fit_room [OF s1] pre(2) x by fastforce
  ultimately show ?thesis using that [OF s1, of "r1 @ x" ps2] s2 x by simp
next
  case False
  then obtain y where y: "xs = pre @ y" "big = y @ ys"
    using append_eq_split [OF total [symmetric]] by auto
  then have "split_frames y = ([], y)" using split_incomplete_prefix [OF big] xs by simp
  then have "split_frames xs = (ps, y)" using split_frames_append [OF pre(1), of y "[]" y] y by simp
  moreover have "frames_fit []" by (subst frames_fit.simps) simp
  ultimately show ?thesis using that [of ps y "[]" "[]"] y xs by simp
qed

text \<open>A full buffer without a complete frame: what is in it belongs to the oversized frame.\<close>

lemma full_buffer_oversize:
  assumes r0: "split_frames r0 = ([], r0)" "length r0 = MAX_BUFFER_SIZE" and total: "r0 @ ys = pre @ big"
    and pre: "split_frames pre = (ps, [])" "frames_fit pre" and big: "hdr big + 2 > MAX_BUFFER_SIZE"
  shows "ps = []"
proof -
  obtain ps1 r1 ps2 pre2 where "split_frames r0 = (ps1, r1)" "split_frames pre2 = (ps2, [])" "frames_fit pre2"
    "ps = ps1 @ ps2" "r1 @ ys = pre2 @ big"
    using oversize_turn [OF total pre big] r0(2) by (metis order_refl)
  with r0(1) have pre2: "ps = ps2" "r0 @ ys = pre2 @ big" "split_frames pre2 = (ps2, [])" "frames_fit pre2"
    by simp_all
  have "\<not> length r0 \<le> length pre2"
  proof
    assume "length r0 \<le> length pre2"
    then obtain x where "pre2 = r0 @ x" using append_eq_split [OF pre2(2)] by blast
    then show False using frames_fit_room [OF r0(1), of x] pre2(4) r0(2) by simp
  qed
  then obtain y where "r0 = pre2 @ y" using append_eq_split [OF pre2(2) [symmetric]] by auto
  then have "split_frames r0 = (ps2 @ fst (split_frames y), snd (split_frames y))"
    using split_frames_append [OF pre2(3), of y] by (metis append_Nil prod.collapse)
  then show ?thesis using r0(1) pre2(1) by simp
qed

lemma thread_loop_oversize:
  assumes "length buf = MAX_BUFFER_SIZE" "take (length r0) buf = r0" "length r0 \<le> MAX_BUFFER_SIZE"
    "[] \<notin> set chunks" "r0 @ concat chunks = pre @ big" "split_frames r0 = ([], r0)"
    "split_frames pre = (ps, [])" "frames_fit pre"
    "hdr big + 2 > MAX_BUFFER_SIZE" "MAX_BUFFER_SIZE \<le> length big"
  shows "rbind (socket_thread_loop nd unpack log buf (length r0) (map Sock_Data chunks @ evs) s)
      (\<lambda>(st, b, n, s'). Inr (st, s')) =
    rbind (rfold (handle_frame nd unpack log) ps s) (\<lambda>s'. Inr (Disconnected, s'))"
  using assms
proof (induction "length (concat chunks)" arbitrary: chunks buf r0 pre ps s rule: less_induct)
  case less
  show ?case
  proof (cases "length r0 = MAX_BUFFER_SIZE")
    case True
    have "ps = []" by (rule full_buffer_oversize [OF less.prems(6) True less.prems(5,7,8,9)])
    with True show ?thesis by (simp add: socket_thread_loop.simps)
  next
    case False
    then have r0: "length r0 < MAX_BUFFER_SIZE" using less.prems(3) by simp
    with less.prems(5,10) obtain c cs where Cons: "chunks = c # cs"
      by (cases chunks) (auto dest: arg_cong [of _ _ length])
    let ?room = "MAX_BUFFER_SIZE - length r0"
    let ?got = "take ?room c" and ?cs = "(if drop ?room c = [] then cs else drop ?room c # cs)"
    have c: "c \<noteq> []" "[] \<notin> set ?cs" using less.prems(4) Cons by auto
    have total: "concat chunks = ?got @ concat ?cs" using Cons by auto
    then have short: "length (concat ?cs) < length (concat chunks)" using r0 c by auto
    have len: "length (r0 @ ?got) \<le> MAX_BUFFER_SIZE" using r0 by auto
    have "(r0 @ ?got) @ concat ?cs = pre @ big" using total less.prems(5) by simp
    from oversize_turn [OF this less.prems(7,8,9) len]
    obtain ps1 r1 ps2 pre2 where t: "split_frames (r0 @ ?got) = (ps1, r1)" "split_frames pre2 = (ps2, [])"
      "frames_fit pre2" "ps = ps1 @ ps2" "r1 @ concat ?cs = pre2 @ big" "length r1 \<le> MAX_BUFFER_SIZE"
      by metis
    have evs: "next_events ?room c (map Sock_Data cs @ evs) = map Sock_Data ?cs @ evs"
      by (simp add: next_events_def)
    obtain buf1 where buf1: "length buf1 = MAX_BUFFER_SIZE" "take (length r1) buf1 = r1"
      "\<And>s. socket_thread_loop nd unpack log buf (length r0) (map Sock_Data chunks @ evs) s =
        rbind (rfold (handle_frame nd unpack log) ps1 s)
          (socket_thread_loop nd unpack log buf1 (length r1) (map Sock_Data ?cs @ evs))"
      using thread_loop_turn [OF less.prems(1,2) r0 c(1) t(1), of nd unpack log "map Sock_Data cs @ evs"] Cons
      unfolding evs by auto
    have inc: "split_frames r1 = ([], r1)" using split_frames_rest [OF t(1)] by (rule split_frames_short)
    have "rbind (socket_thread_loop nd unpack log buf1 (length r1) (map Sock_Data ?cs @ evs) u)
        (\<lambda>(st, b, n, s'). Inr (st, s')) =
      rbind (rfold (handle_frame nd unpack log) ps2 u) (\<lambda>s'. Inr (Disconnected, s'))" for u
      using less.hyps [OF short buf1(1,2) t(6) c(2) t(5) inc t(2,3) less.prems(9,10)] .
    then show ?thesis by (simp add: buf1(3) t(4) rfold_append rbind_assoc)
  qed
qed

text \<open>
  C5. A message longer than the buffer ends the connection: when the frames of the payloads
  \<open>ps\<close> are followed by a frame announcing more than 8190 bytes, and that many bytes arrive, the
  thread logs \<open>ps\<close>, disconnects, and handles nothing that follows, however the bytes are cut.
\<close>

theorem oversized_frame_disconnects:
  assumes "length stack = MAX_BUFFER_SIZE" "\<forall>p \<in> set ps. length p + 2 \<le> MAX_BUFFER_SIZE"
    "[] \<notin> set chunks" "concat chunks = concat (map frame ps) @ big"
    "hdr big + 2 > MAX_BUFFER_SIZE" "MAX_BUFFER_SIZE \<le> length big"
  shows "rbind (socket_thread_loop nd unpack log stack 0 (map Sock_Data chunks @ evs) s)
           (\<lambda>(st, b, n, s'). Inr (st, s')) =
         rbind (rfold (handle_frame nd unpack log) ps s) (\<lambda>s'. Inr (Disconnected, s'))"
proof -
  have "\<And>p. p \<in> set ps \<Longrightarrow> length p < 65536" using assms(2) by (force simp: MAX_BUFFER_SIZE_def)
  then have sp: "split_frames (concat (map frame ps)) = (ps, [])"
    using split_frames_frames [of ps "[]"] by simp
  have fit: "frames_fit (concat (map frame ps))" using frames_fit_frames [of ps] assms(2) by auto
  show ?thesis
    using thread_loop_oversize [of stack "[]" chunks "concat (map frame ps)" big ps nd unpack log evs s] assms sp fit
    by simp
qed

theorem oversized_frame_disconnects_witness:
  "rbind (socket_thread_loop True Some (\<lambda>m s. Inr (s @ [m])) (replicate 8192 0) 0
      (map Sock_Data [[0, 1, 65], [32, 0] @ replicate 8190 7] @ [Sock_Data [0, 1, 66]]) [])
     (\<lambda>(st, b, n, s'). Inr (st, s')) = Inr (Disconnected, [[65]])"
proof -
  have "rbind (socket_thread_loop True Some (\<lambda>m s. Inr (s @ [m])) (replicate 8192 0) 0
      (map Sock_Data [[0, 1, 65], [32, 0] @ replicate 8190 7] @ [Sock_Data [0, 1, 66]]) [])
     (\<lambda>(st, b, n, s'). Inr (st, s')) =
    rbind (rfold (handle_frame True Some (\<lambda>m s. Inr (s @ [m]))) [[65]] []) (\<lambda>s'. Inr (Disconnected, s'))"
    by (rule oversized_frame_disconnects [where big = "[32, 0] @ replicate 8190 7"])
      (simp_all add: MAX_BUFFER_SIZE_def frame_def hdr_def)
  then show ?thesis by (simp add: handle_frame_def protobuf_parse_def)
qed

end
