(* ===== verification/Network.thy ===== *)
theory Network
  imports Protobuf_Stream Config
begin

text \<open>
  The network side of \<^verbatim>\<open>src/pdns-logger-protobuf.c\<close> around the connection thread's loop: the
  listening socket, the accept loop, and the start of a connection thread. The kernel's answers
  are inputs; the calls made are recorded in a trace. Signals reach the accept loop as events.
\<close>

section \<open>System calls\<close>

datatype syscall =
    Sys_Socket
  | Sys_Reuseaddr int
  | Sys_Bind int u32 u16
  | Sys_Getfl int
  | Sys_Setfl int int
  | Sys_Listen int
  | Sys_Accept int
  | Sys_Close int

record net_answers =
  na_socket :: int
  na_reuseaddr :: int
  na_bind :: int
  na_getfl :: int
  na_setfl :: int
  na_listen :: int

definition O_NONBLOCK :: int where
  "O_NONBLOCK = 2048"

definition INADDR_ANY :: u32 where
  "INADDR_ANY = 0"

text \<open>\<^verbatim>\<open>htons\<close> swaps the two bytes, as \<^verbatim>\<open>ntohs\<close> does; its int argument is cut to 16 bits.\<close>

definition htons :: "int \<Rightarrow> u16" where
  "htons p = ntohs (word_of_int p)"

unbundle bit_operations_syntax

section \<open>The listening socket\<close>

definition socket_start :: "net_answers \<Rightarrow> globals \<Rightarrow> pdns_status \<times> globals \<times> syscall list" where
  "socket_start a conf =
     (let fd = na_socket a; conf1 = conf\<lparr>g_socket := fd\<rparr>
      in if fd = -1 then (PDNS_NO, conf1, [Sys_Socket])
         else
           let t1 = [Sys_Socket, Sys_Reuseaddr fd, Sys_Bind fd INADDR_ANY (htons (bind_port conf1))]
           in if na_bind a < 0 then (PDNS_NO, conf1, t1)
              else if na_getfl a = -1 then (PDNS_NO, conf1, t1 @ [Sys_Getfl fd])
              else let t2 = t1 @ [Sys_Getfl fd, Sys_Setfl fd (na_getfl a OR O_NONBLOCK)]
                   in if na_setfl a = -1 then (PDNS_NO, conf1, t2)
                      else if na_listen a < 0 then (PDNS_NO, conf1, t2 @ [Sys_Listen fd])
                      else (PDNS_OK, conf1, t2 @ [Sys_Listen fd]))"

definition socket_close :: "globals \<Rightarrow> pdns_status \<times> syscall list" where
  "socket_close conf = (PDNS_OK, [Sys_Close (g_socket conf)])"

section \<open>Connection threads\<close>

text \<open>
  \<^verbatim>\<open>socket_start_thread\<close> passes the address of its parameter. A thread that reads it before the
  function returns serves the connection; one that reads it later reads a dead stack slot.
\<close>

datatype conn_thread = Serving int | Dangling_Argument

definition socket_start_thread :: "bool \<Rightarrow> int \<Rightarrow> pdns_status \<times> conn_thread" where
  "socket_start_thread early socket = (PDNS_OK, if early then Serving socket else Dangling_Argument)"

text \<open>
  The thread function: the flags of the socket, the reading loop, and the close. \<^verbatim>\<open>!O_NONBLOCK\<close> is
  the logical negation of a non-zero constant. While the thread still waits nothing is closed.
\<close>

definition socket_thread_exec ::
  "bool \<Rightarrow> (u8 list \<Rightarrow> 'm option) \<Rightarrow> ('m \<Rightarrow> 's \<Rightarrow> 's res) \<Rightarrow> int \<Rightarrow> int \<Rightarrow> u8 list \<Rightarrow> sock_event list \<Rightarrow> int \<Rightarrow> 's \<Rightarrow>
     (syscall list \<times> 's) res" where
  "socket_thread_exec nd unpack log getfl setfl buffer evs socket s =
     (if getfl = -1 then Inr ([Sys_Getfl socket], s)
      else
        let flags = getfl OR (if O_NONBLOCK = 0 then 1 else 0);
            t = [Sys_Getfl socket, Sys_Setfl socket flags]
        in if setfl = -1 then Inr (t, s)
           else rbind (socket_thread_loop nd unpack log buffer 0 evs s)
                  (\<lambda>(st, buf, n, s'). Inr (t @ (if st = Disconnected then [Sys_Close socket] else []), s')))"

section \<open>The accept loop\<close>

text \<open>
  What happens around the loop: a stop signal, a failing \<^verbatim>\<open>select\<close>, or a \<^verbatim>\<open>select\<close> that reports ready
  descriptors, with the answer of \<^verbatim>\<open>accept\<close> and whether the new thread reads its argument in time.
\<close>

datatype loop_event = Sig_Stop | Select_Failed | Select_Ready "int list" int bool

record loop_state =
  ls_conf :: globals
  ls_threads :: "conn_thread list"
  ls_trace :: "syscall list"

definition FD_SETSIZE :: int where
  "FD_SETSIZE = 1024"

text \<open>The body for one descriptor below \<^verbatim>\<open>FD_SETSIZE\<close> that is set.\<close>

definition handle_fd :: "bool \<Rightarrow> int \<Rightarrow> bool \<Rightarrow> int \<Rightarrow> loop_state \<Rightarrow> loop_state res" where
  "handle_fd nd new early i st =
     (if i = g_socket (ls_conf st) then
        (let st1 = st\<lparr>ls_trace := ls_trace st @ [Sys_Accept (g_socket (ls_conf st))]\<rparr>
         in if new < 0 then Inr st1
            else Inr (st1\<lparr>ls_threads := ls_threads st1 @ [snd (socket_start_thread early new)]\<rparr>))
      else assert0 nd st)"

text \<open>The result says whether the loop has ended, or waits in \<^verbatim>\<open>select\<close> for what comes next.\<close>

fun socket_loop :: "bool \<Rightarrow> loop_event list \<Rightarrow> loop_state \<Rightarrow> (bool \<times> loop_state) res" where
  "socket_loop nd evs st =
     (if \<not> running (ls_conf st) then Inr (True, st)
      else case evs of
        [] \<Rightarrow> Inr (False, st)
      | Sig_Stop # evs' \<Rightarrow> socket_loop nd evs' (st\<lparr>ls_conf := (ls_conf st)\<lparr>running := False\<rparr>\<rparr>)
      | Select_Failed # evs' \<Rightarrow> socket_loop nd evs' st
      | Select_Ready fds new early # evs' \<Rightarrow>
          rbind (rfold (handle_fd nd new early) (filter (\<lambda>i. i \<in> set fds) [0..FD_SETSIZE - 1]) st)
            (socket_loop nd evs'))"

declare socket_loop.simps [simp del]

definition pdns_socket_run ::
  "bool \<Rightarrow> net_answers \<Rightarrow> loop_event list \<Rightarrow> globals \<Rightarrow> (pdns_status \<times> loop_state \<times> bool) res" where
  "pdns_socket_run nd a evs conf =
     (case socket_start a conf of (st, conf1, t) \<Rightarrow>
        if st = PDNS_OK then
          rbind (socket_loop nd evs \<lparr>ls_conf = conf1, ls_threads = [], ls_trace = t\<rparr>) (\<lambda>(ended, ls).
            if ended
            then case socket_close (ls_conf ls) of (st', t') \<Rightarrow> Inr (st', ls\<lparr>ls_trace := ls_trace ls @ t'\<rparr>, True)
            else Inr (PDNS_OK, ls, False))
        else Inr (PDNS_NO, \<lparr>ls_conf = conf1, ls_threads = [], ls_trace = t\<rparr>, True))"

section \<open>What the daemon listens on\<close>

lemma unat_ntohs: "unat (ntohs w) = 256 * (unat w mod 256) + unat w div 256"
proof -
  have "unat w < 65536" using unsigned_less [where ?'a = nat, of w] by simp
  then have "256 * (unat w mod 256) + unat w div 256 < 65536" by (simp add: less_mult_imp_div_less)
  then show ?thesis unfolding ntohs_def by (rule unat_of_nat_u16)
qed

lemma ntohs_ntohs: "ntohs (ntohs w) = w"
proof -
  have "unat w < 65536" using unsigned_less [where ?'a = nat, of w] by simp
  then have "unat w div 256 < 256" by (simp add: less_mult_imp_div_less)
  then have "unat (ntohs (ntohs w)) = unat w" by (simp add: unat_ntohs)
  then show ?thesis by (simp only: word_unat_eq_iff)
qed

lemma ntohs_htons: "unat (ntohs (htons p)) = nat (p mod 65536)"
proof -
  have "nat (uint (word_of_int p :: u16)) = nat (p mod 65536)" by (simp add: uint_word_of_int)
  then show ?thesis by (simp add: htons_def ntohs_ntohs)
qed

definition bound_to :: "syscall list \<Rightarrow> (int \<times> u32 \<times> nat) list" where
  "bound_to t = concat (map (\<lambda>c. case c of Sys_Bind fd addr port \<Rightarrow> [(fd, addr, unat (ntohs port))] | _ \<Rightarrow> []) t)"

text \<open>
  Opening the listening socket: it succeeds exactly when every call the code checks succeeds
  (a failing \<^verbatim>\<open>SO_REUSEADDR\<close> is only reported), it binds to every local address and to the configured
  port modulo 65536, and the configured address \<^verbatim>\<open>bind-ip\<close> has no influence on it.
\<close>

lemma socket_start_spec:
  "case socket_start a conf of (st, conf', t) \<Rightarrow>
     conf' = conf\<lparr>g_socket := na_socket a\<rparr> \<and>
     (st = PDNS_OK \<longleftrightarrow> na_socket a \<noteq> -1 \<and> 0 \<le> na_bind a \<and> na_getfl a \<noteq> -1 \<and> na_setfl a \<noteq> -1 \<and> 0 \<le> na_listen a) \<and>
     bound_to t =
       (if na_socket a = -1 then [] else [(na_socket a, INADDR_ANY, nat (bind_port conf mod 65536))]) \<and>
     socket_start a (conf\<lparr>bind_ip := ip\<rparr>) = (st, conf'\<lparr>bind_ip := ip\<rparr>, t)"
  by (simp add: socket_start_def Let_def bound_to_def ntohs_htons)

section \<open>The connection thread\<close>

text \<open>
  A connection thread asks for the flags of its socket and sets the very same flags again, so the
  socket stays blocking; it closes the socket when its loop has ended, and leaves it open when the
  flags cannot be read or set. The messages are those of the reading loop.
\<close>

lemma socket_thread_exec_spec:
  "socket_thread_exec nd unpack log getfl setfl buffer evs fd s =
     (if getfl = -1 then Inr ([Sys_Getfl fd], s)
      else if setfl = -1 then Inr ([Sys_Getfl fd, Sys_Setfl fd getfl], s)
      else rbind (socket_thread_loop nd unpack log buffer 0 evs s)
             (\<lambda>(st, buf, n, s').
                Inr ([Sys_Getfl fd, Sys_Setfl fd getfl] @ (if st = Disconnected then [Sys_Close fd] else []), s')))"
  by (simp add: socket_thread_exec_def O_NONBLOCK_def Let_def)

section \<open>The accept loop\<close>

text \<open>\<^verbatim>\<open>select\<close> reports only descriptors it was asked about, here the listening socket.\<close>

definition legal_event :: "int \<Rightarrow> loop_event \<Rightarrow> bool" where
  "legal_event sock e = (case e of Select_Ready fds new early \<Rightarrow> set fds \<subseteq> {sock} | _ \<Rightarrow> True)"

definition accepted :: "int \<Rightarrow> loop_event \<Rightarrow> conn_thread list" where
  "accepted sock e =
     (case e of
        Select_Ready fds new early \<Rightarrow>
          if sock \<in> set fds \<and> 0 \<le> new then [if early then Serving new else Dangling_Argument] else []
      | _ \<Rightarrow> [])"

lemma filter_upto_single:
  assumes "a \<le> s" "s \<le> b" "set fds \<subseteq> {s :: int}"
  shows "filter (\<lambda>i. i \<in> set fds) [a..b] = (if s \<in> set fds then [s] else [])"
proof -
  have "[a..b] = [a..s - 1] @ s # [s + 1..b]" using assms(1,2) by (rule upto_split3)
  moreover have "filter (\<lambda>i. i \<in> set fds) [a..s - 1] = []" "filter (\<lambda>i. i \<in> set fds) [s + 1..b] = []"
    using assms(3) by (auto simp: filter_empty_conv)
  ultimately show ?thesis by simp
qed

lemma handle_ready:
  assumes "set fds \<subseteq> {g_socket (ls_conf st)}" "0 \<le> g_socket (ls_conf st)" "g_socket (ls_conf st) < FD_SETSIZE"
  shows "\<exists>t. rfold (handle_fd nd new early) (filter (\<lambda>i. i \<in> set fds) [0..FD_SETSIZE - 1]) st =
    Inr (st\<lparr>ls_threads := ls_threads st @ accepted (g_socket (ls_conf st)) (Select_Ready fds new early), ls_trace := t\<rparr>)"
proof -
  have "filter (\<lambda>i. i \<in> set fds) [0..FD_SETSIZE - 1] =
      (if g_socket (ls_conf st) \<in> set fds then [g_socket (ls_conf st)] else [])"
    using assms by (intro filter_upto_single) auto
  then show ?thesis
    by (intro exI [of _ "if g_socket (ls_conf st) \<in> set fds then ls_trace st @ [Sys_Accept (g_socket (ls_conf st))]
          else ls_trace st"], cases st)
      (auto simp: handle_fd_def accepted_def socket_start_thread_def Let_def)
qed



end
