(* ===== verification/Daemon.thy ===== *)
theory Daemon
  imports Logfile Syslog Sqlite Network
begin

text \<open>
  The daemon, \<^verbatim>\<open>src/pdns-logger.c\<close>: the table of logging engines and the calls that go through it, the
  command line, the change to the background, the signal handlers, and \<^verbatim>\<open>main\<close>. What the kernel,
  the clients and the threads do is an input of the model.
\<close>

section \<open>Engines\<close>

text \<open>
  \<^verbatim>\<open>pdns_logger_t\<close>, four function pointers. A pointer is NULL or points to the function of its kind in one of
  the three files; the functions it stands for are given below by \<open>start_engine\<close>, \<open>rotate_engine\<close>, \<open>stop_engine\<close>
  and \<open>log_engine\<close>.
\<close>

datatype engine = Logfile_Engine | Syslog_Engine | Sqlite_Engine

record pdns_logger =
  pl_start :: "engine option"
  pl_rotate :: "engine option"
  pl_stop :: "engine option"
  pl_log :: "engine option"

definition logfile_engine :: pdns_logger where
  "logfile_engine =
     \<lparr>pl_start = Some Logfile_Engine, pl_rotate = Some Logfile_Engine,
      pl_stop = Some Logfile_Engine, pl_log = Some Logfile_Engine\<rparr>"

definition syslog_engine :: pdns_logger where
  "syslog_engine =
     \<lparr>pl_start = Some Syslog_Engine, pl_rotate = Some Syslog_Engine,
      pl_stop = Some Syslog_Engine, pl_log = Some Syslog_Engine\<rparr>"

definition sqlite_engine :: pdns_logger where
  "sqlite_engine =
     \<lparr>pl_start = Some Sqlite_Engine, pl_rotate = Some Sqlite_Engine,
      pl_stop = Some Sqlite_Engine, pl_log = Some Sqlite_Engine\<rparr>"

text \<open>Zeroed memory.\<close>

definition null_logger :: pdns_logger where
  "null_logger = \<lparr>pl_start = None, pl_rotate = None, pl_stop = None, pl_log = None\<rparr>"

record ('h, 'w) daemon =
  d_globals :: globals
  engines :: "pdns_logger list"
  engines_count :: nat
  d_logfile :: logfile
  d_syslog :: syslog
  d_sqlite :: "('h, 'w) logsqlite"

text \<open>
  The surroundings of the process: the build's \<^verbatim>\<open>NDEBUG\<close>, the buffering of stdio, SQLite, whether
  memory is available, the files that can be read, and the number of the calling thread.
\<close>

record ('h, 'w) surroundings =
  ndebug :: bool
  stdio_spill :: "string \<Rightarrow> nat"
  sqlite_api :: "('h, 'w) sqlite3_api"
  memory :: bool
  readable :: "string \<rightharpoonup> string"
  caller :: nat

text \<open>A call that never returns blocks its caller.\<close>

definition returning :: "'a res option \<Rightarrow> 'a res" where
  "returning x = (case x of None \<Rightarrow> Inl Would_Block | Some r \<Rightarrow> r)"

definition start_engine :: "('h, 'w) surroundings \<Rightarrow> cstring \<Rightarrow> engine \<Rightarrow> ('h, 'w) daemon \<Rightarrow> ('h, 'w) daemon res" where
  "start_engine env conf e d =
     (case e of
        Logfile_Engine \<Rightarrow>
          rbind (returning (map_option Inr (logfile_init (readable env) conf (d_logfile d))))
            (\<lambda>(st, s). Inr (d\<lparr>d_logfile := s\<rparr>))
      | Syslog_Engine \<Rightarrow>
          rbind (returning (map_option Inr (syslog_init (readable env) conf (d_syslog d))))
            (\<lambda>(st, s). Inr (d\<lparr>d_syslog := s\<rparr>))
      | Sqlite_Engine \<Rightarrow>
          rbind (returning (map_option Inr
                  (logsqlite_init (sqlite_api env) (memory env) (readable env) conf (d_sqlite d))))
            (\<lambda>(st, s). Inr (d\<lparr>d_sqlite := s\<rparr>)))"

definition log_engine ::
  "('h, 'w) surroundings \<Rightarrow> pbdnsmessage option \<Rightarrow> engine \<Rightarrow> ('h, 'w) daemon \<Rightarrow> ('h, 'w) daemon res" where
  "log_engine env msg e d =
     (case e of
        Logfile_Engine \<Rightarrow>
          rbind (logfile_log (stdio_spill env) (ndebug env) msg (d_logfile d)) (\<lambda>(st, s). Inr (d\<lparr>d_logfile := s\<rparr>))
      | Syslog_Engine \<Rightarrow>
          rbind (syslog_log (ndebug env) msg (d_syslog d)) (\<lambda>(st, s). Inr (d\<lparr>d_syslog := s\<rparr>))
      | Sqlite_Engine \<Rightarrow>
          rbind (logsqlite_log (sqlite_api env) (ndebug env) (memory env) (caller env) msg (d_sqlite d))
            (\<lambda>(st, s). Inr (d\<lparr>d_sqlite := s\<rparr>)))"

definition rotate_engine :: "('h, 'w) surroundings \<Rightarrow> engine \<Rightarrow> ('h, 'w) daemon \<Rightarrow> ('h, 'w) daemon res" where
  "rotate_engine env e d =
     (case e of
        Logfile_Engine \<Rightarrow> rbind (logfile_rotate (d_logfile d)) (\<lambda>(st, s). Inr (d\<lparr>d_logfile := s\<rparr>))
      | Syslog_Engine \<Rightarrow> Inr (d\<lparr>d_syslog := snd (syslog_rotate (d_syslog d))\<rparr>)
      | Sqlite_Engine \<Rightarrow>
          rbind (returning (logsqlite_rotate (caller env) (sqlite_api env) (d_sqlite d)))
            (\<lambda>(st, s). Inr (d\<lparr>d_sqlite := s\<rparr>)))"

definition stop_engine :: "('h, 'w) surroundings \<Rightarrow> engine \<Rightarrow> ('h, 'w) daemon \<Rightarrow> ('h, 'w) daemon res" where
  "stop_engine env e d =
     (case e of
        Logfile_Engine \<Rightarrow> rbind (logfile_stop (d_logfile d)) (\<lambda>(st, s). Inr (d\<lparr>d_logfile := s\<rparr>))
      | Syslog_Engine \<Rightarrow> Inr (d\<lparr>d_syslog := snd (syslog_stop (d_syslog d))\<rparr>)
      | Sqlite_Engine \<Rightarrow> rbind (logsqlite_stop (sqlite_api env) (d_sqlite d)) (\<lambda>(st, s). Inr (d\<lparr>d_sqlite := s\<rparr>)))"

text \<open>\<^verbatim>\<open>for (t = 0; t < engines_count; t++) if (engines[t].f != NULL) engines[t].f(\<dots>)\<close>.\<close>

definition each_engine ::
  "(pdns_logger \<Rightarrow> engine option) \<Rightarrow> (engine \<Rightarrow> ('h, 'w) daemon \<Rightarrow> ('h, 'w) daemon res) \<Rightarrow> ('h, 'w) daemon \<Rightarrow> ('h, 'w) daemon res" where
  "each_engine member f d =
     rfold (\<lambda>slot d. case member slot of None \<Rightarrow> Inr d | Some e \<Rightarrow> f e d) (take (engines_count d) (engines d)) d"

definition pdns_loggers_log ::
  "('h, 'w) surroundings \<Rightarrow> pbdnsmessage option \<Rightarrow> ('h, 'w) daemon \<Rightarrow> (pdns_status \<times> ('h, 'w) daemon) res" where
  "pdns_loggers_log env msg d = rbind (each_engine pl_log (log_engine env msg) d) (\<lambda>d'. Inr (PDNS_OK, d'))"

definition pdns_loggers_rotate :: "('h, 'w) surroundings \<Rightarrow> ('h, 'w) daemon \<Rightarrow> (pdns_status \<times> ('h, 'w) daemon) res" where
  "pdns_loggers_rotate env d = rbind (each_engine pl_rotate (rotate_engine env) d) (\<lambda>d'. Inr (PDNS_OK, d'))"

text \<open>\<^verbatim>\<open>engines[engines_count++] = e\<close>, in an array of three.\<close>

definition add_engine :: "pdns_logger \<Rightarrow> ('h, 'w) daemon \<Rightarrow> ('h, 'w) daemon res" where
  "add_engine e d =
     (if engines_count d < length (engines d)
      then Inr (d\<lparr>engines := (engines d)[engines_count d := e], engines_count := Suc (engines_count d)\<rparr>)
      else Inl Buffer_Overflow)"

definition loggers_initialize ::
  "('h, 'w) surroundings \<Rightarrow> cstring \<Rightarrow> ('h, 'w) daemon \<Rightarrow> (pdns_status \<times> ('h, 'w) daemon) res" where
  "loggers_initialize env conf d =
     rbind (rfold add_engine [logfile_engine, syslog_engine, sqlite_engine] (d\<lparr>engines := replicate 3 null_logger\<rparr>)) (\<lambda>d1.
     rbind (each_engine pl_start (start_engine env conf) d1) (\<lambda>d2. Inr (PDNS_OK, d2)))"

definition loggers_halt :: "('h, 'w) surroundings \<Rightarrow> ('h, 'w) daemon \<Rightarrow> (pdns_status \<times> ('h, 'w) daemon) res" where
  "loggers_halt env d = rbind (each_engine pl_stop (stop_engine env) d) (\<lambda>d'. Inr (PDNS_OK, d'))"

section \<open>Going to the background\<close>

text \<open>
  \<open>pid\<close> and \<open>sid\<close> are the answers of \<^verbatim>\<open>fork\<close> and \<^verbatim>\<open>setsid\<close>. Only the calling thread exists in the child, so
  a background thread started before is gone there.
\<close>

definition fork_and_close_parent :: "int \<Rightarrow> int \<Rightarrow> pdns_status" where
  "fork_and_close_parent pid sid =
     (if pid \<noteq> 0 then PDNS_OK
      else if sid < 0 then PDNS_NO
      else PDNS_FORK)"

definition child_of_fork :: "('h, 'w) daemon \<Rightarrow> ('h, 'w) daemon" where
  "child_of_fork d = d\<lparr>d_sqlite := (d_sqlite d)\<lparr>bgthread := Bg_None\<rparr>\<rparr>"

section \<open>Signals\<close>

definition signal_rotate :: "('h, 'w) surroundings \<Rightarrow> ('h, 'w) daemon \<Rightarrow> ('h, 'w) daemon res" where
  "signal_rotate env d = rbind (pdns_loggers_rotate env d) (\<lambda>(st, d'). Inr d')"

definition signal_stop :: "('h, 'w) daemon \<Rightarrow> ('h, 'w) daemon" where
  "signal_stop d = d\<lparr>d_globals := (d_globals d)\<lparr>running := False\<rparr>\<rparr>"

section \<open>The command line\<close>

text \<open>
  \<^verbatim>\<open>getopt(argc, argv, "hvc:f")\<close> as the GNU C library does it: options may be clustered, the argument of
  \<^verbatim>\<open>-c\<close> is the rest of its word or the next one, other words are skipped, and \<^verbatim>\<open>--\<close> ends the options.
\<close>

datatype opt = Opt char | Opt_Arg char string | Opt_Bad char

fun getopt_word :: "string \<Rightarrow> string list \<Rightarrow> opt list \<times> string list" where
  "getopt_word [] args = ([], args)"
| "getopt_word (c # cs) args =
     (if c \<in> set ''hvf'' then (case getopt_word cs args of (os, rest) \<Rightarrow> (Opt c # os, rest))
      else if c = CHR ''c'' then
        (if cs \<noteq> [] then ([Opt_Arg c cs], args)
         else case args of [] \<Rightarrow> ([Opt_Bad c], []) | a # rest \<Rightarrow> ([Opt_Arg c a], rest))
      else (case getopt_word cs args of (os, rest) \<Rightarrow> (Opt_Bad c # os, rest)))"

lemma getopt_word_rest: "length (snd (getopt_word cs args)) \<le> length args"
  by (induction cs args rule: getopt_word.induct) (auto split: list.splits prod.splits)

function getopt :: "string list \<Rightarrow> opt list" where
  "getopt [] = []"
| "getopt (w # args) =
     (if w = ''--'' then []
      else case w of
        c # d # cs \<Rightarrow>
          (if c = CHR ''-'' then (case getopt_word (d # cs) args of (os, rest) \<Rightarrow> os @ getopt rest)
           else getopt args)
      | _ \<Rightarrow> getopt args)"
  by pat_completeness auto
termination
proof (relation "measure length")
  fix w args c x21 d cs xa y
  assume "(xa, y) = getopt_word (d # cs) args"
  then have "length y \<le> length args" using getopt_word_rest [of "d # cs" args] by (metis snd_conv)
  then show "(y, w # args) \<in> measure length" by simp
qed auto

fun parse_opts :: "opt list \<Rightarrow> globals \<Rightarrow> pdns_status \<times> globals" where
  "parse_opts [] conf = (PDNS_OK, conf)"
| "parse_opts (Opt_Arg c arg # os) conf = parse_opts os (conf\<lparr>config_file := Some arg\<rparr>)"
| "parse_opts (Opt c # os) conf =
     (if c = CHR ''h'' then (PDNS_OK, conf)
      else if c = CHR ''f'' then parse_opts os (conf\<lparr>foreground := True\<rparr>)
      else if c = CHR ''v'' then parse_opts os (conf\<lparr>verbose := True\<rparr>)
      else (PDNS_NO, conf))"
| "parse_opts (Opt_Bad c # os) conf = (PDNS_NO, conf)"

definition parse_cli :: "globals \<Rightarrow> string list \<Rightarrow> pdns_status \<times> globals" where
  "parse_cli conf argv = parse_opts (getopt (drop 1 argv)) conf"

section \<open>The running daemon\<close>

text \<open>
  What happens to the loggers while the accept loop runs: a connection thread hands over a message,
  a hangup signal asks for rotation, the SQLite background thread makes a step.
\<close>

datatype activity = Message pbdnsmessage | Hangup | Background

definition background_step :: "('h, 'w) surroundings \<Rightarrow> ('h, 'w) daemon \<Rightarrow> ('h, 'w) daemon res" where
  "background_step env d =
     (case bgthread (d_sqlite d) of
        Bg_Created \<Rightarrow> Inr (d\<lparr>d_sqlite := bg_thread_begin (d_sqlite d)\<rparr>)
      | Bg_Loop \<Rightarrow>
          rbind (returning (bg_thread_round (Suc (caller env)) (sqlite_api env) (d_sqlite d)))
            (\<lambda>s. Inr (d\<lparr>d_sqlite := s\<rparr>))
      | _ \<Rightarrow> Inr d)"

definition activity_step :: "('h, 'w) surroundings \<Rightarrow> activity \<Rightarrow> ('h, 'w) daemon \<Rightarrow> ('h, 'w) daemon res" where
  "activity_step env a d =
     (case a of
        Message m \<Rightarrow> rbind (pdns_loggers_log env (Some m) d) (\<lambda>(st, d'). Inr d')
      | Hangup \<Rightarrow> signal_rotate env d
      | Background \<Rightarrow> background_step env d)"

section \<open>main\<close>

datatype outcome = Exit_Failure | Exit_Success | Still_Running

text \<open>The answers of the kernel and the events \<^verbatim>\<open>main\<close> meets on its way.\<close>

record course =
  c_pid :: int
  c_sid :: int
  c_net :: net_answers
  c_loop :: "loop_event list"
  c_acts :: "activity list"

definition serve :: "('h, 'w) surroundings \<Rightarrow> course \<Rightarrow> ('h, 'w) daemon \<Rightarrow> (outcome \<times> ('h, 'w) daemon) res" where
  "serve env c d =
     (let d1 = d\<lparr>d_globals := (d_globals d)\<lparr>running := True\<rparr>\<rparr>
      in rbind (pdns_socket_run (ndebug env) (c_net c) (c_loop c) (d_globals d1)) (\<lambda>(st, ls, ended).
           if st \<noteq> PDNS_OK then Inr (Exit_Failure, d1\<lparr>d_globals := ls_conf ls\<rparr>)
           else rbind (rfold (activity_step env) (c_acts c) (d1\<lparr>d_globals := ls_conf ls\<rparr>)) (\<lambda>d2.
             if \<not> ended then Inr (Still_Running, d2)
             else rbind (loggers_halt env d2) (\<lambda>(st', d3).
               Inr (Exit_Success, d3\<lparr>d_globals := (d_globals d3)\<lparr>g_user := None, g_group := None, config_file := None\<rparr>\<rparr>)))))"

definition main ::
  "('h, 'w) surroundings \<Rightarrow> string \<Rightarrow> string list \<Rightarrow> course \<Rightarrow> ('h, 'w) daemon \<Rightarrow> (outcome \<times> ('h, 'w) daemon) res" where
  "main env default_config argv c d =
     (case parse_cli globals_zero argv of (st, g) \<Rightarrow>
        if st \<noteq> PDNS_OK then Inr (Exit_Failure, d\<lparr>d_globals := g\<rparr>)
        else
          let g1 = (if zstr (config_file g) then g\<lparr>config_file := Some default_config\<rparr> else g)
          in rbind (returning (map_option Inr (parse_config_file (readable env) (config_file g1) g1))) (\<lambda>(st, g2).
             if st \<noteq> PDNS_OK then Inr (Exit_Failure, d\<lparr>d_globals := g2\<rparr>)
             else rbind (loggers_initialize env (config_file g2) (d\<lparr>d_globals := g2\<rparr>)) (\<lambda>(st', d1).
               if foreground g2 then serve env c d1
               else case fork_and_close_parent (c_pid c) (c_sid c) of
                 PDNS_OK \<Rightarrow> Inr (Exit_Success, d1)
               | PDNS_FORK \<Rightarrow> serve env c (child_of_fork d1)
               | _ \<Rightarrow> Inr (Exit_Failure, d1))))"

text \<open>The statics of the program at its start.\<close>

definition daemon_start :: "disk \<Rightarrow> 'w \<Rightarrow> ('h, 'w) daemon" where
  "daemon_start dk w =
     \<lparr>d_globals = globals_zero, engines = replicate 3 null_logger, engines_count = 0,
      d_logfile = logfile_static dk, d_syslog = syslog_static, d_sqlite = logsqlite_static w\<rparr>"

section \<open>The table of engines\<close>

definition all_engines :: "pdns_logger list" where
  "all_engines = [logfile_engine, syslog_engine, sqlite_engine]"

lemmas engine_defs = logfile_engine_def syslog_engine_def sqlite_engine_def

lemma engine_pointers [simp]:
  "pl_start logfile_engine = Some Logfile_Engine" "pl_start syslog_engine = Some Syslog_Engine"
  "pl_start sqlite_engine = Some Sqlite_Engine" "pl_rotate logfile_engine = Some Logfile_Engine"
  "pl_rotate syslog_engine = Some Syslog_Engine" "pl_rotate sqlite_engine = Some Sqlite_Engine"
  "pl_stop logfile_engine = Some Logfile_Engine" "pl_stop syslog_engine = Some Syslog_Engine"
  "pl_stop sqlite_engine = Some Sqlite_Engine" "pl_log logfile_engine = Some Logfile_Engine"
  "pl_log syslog_engine = Some Syslog_Engine" "pl_log sqlite_engine = Some Sqlite_Engine"
  by (simp_all add: engine_defs)

definition table_full :: "('h, 'w) daemon \<Rightarrow> bool" where
  "table_full d \<longleftrightarrow> engines d = all_engines \<and> engines_count d = 3"

lemma each_engine_full:
  assumes "table_full d" "member logfile_engine = Some Logfile_Engine" "member syslog_engine = Some Syslog_Engine"
    "member sqlite_engine = Some Sqlite_Engine"
  shows "each_engine member f d = rbind (f Logfile_Engine d) (\<lambda>d. rbind (f Syslog_Engine d) (f Sqlite_Engine))"
  using assms by (simp add: each_engine_def table_full_def all_engines_def)

lemma add_engines:
  "engines_count d = 0 \<Longrightarrow>
     rfold add_engine [logfile_engine, syslog_engine, sqlite_engine] (d\<lparr>engines := replicate 3 null_logger\<rparr>) =
     Inr (d\<lparr>engines := all_engines, engines_count := 3\<rparr>)"
  by (simp add: add_engine_def all_engines_def eval_nat_numeral)

lemma start_engine_table: "start_engine env conf e d = Inr d' \<Longrightarrow> table_full d' = table_full d"
  by (cases e) (auto simp: start_engine_def table_full_def)

lemma loggers_initialize_full:
  assumes "engines_count d = 0" "loggers_initialize env conf d = Inr (st, d')"
  shows "st = PDNS_OK" "table_full d'"
proof -
  let ?d = "d\<lparr>engines := all_engines, engines_count := 3\<rparr>"
  have full: "table_full ?d" by (simp add: table_full_def)
  have "loggers_initialize env conf d = rbind (each_engine pl_start (start_engine env conf) ?d) (\<lambda>d2. Inr (PDNS_OK, d2))"
    unfolding loggers_initialize_def add_engines [OF assms(1)] by simp
  with assms(2) have e: "each_engine pl_start (start_engine env conf) ?d = Inr d'" "st = PDNS_OK" by auto
  then show "st = PDNS_OK" by simp
  from e(1) full show "table_full d'"
    by (auto simp: each_engine_full dest!: start_engine_table)
qed

section \<open>A message at the loggers\<close>

text \<open>
  Every message goes to the file, then to syslog, then to SQLite, each exactly once, whatever
  status the engines before returned; only an abnormal stop of one keeps it from the others.
\<close>

lemma pdns_loggers_log_order:
  assumes "table_full d"
  shows "pdns_loggers_log env msg d =
    rbind (logfile_log (stdio_spill env) (ndebug env) msg (d_logfile d)) (\<lambda>(_, lf).
    rbind (syslog_log (ndebug env) msg (d_syslog d)) (\<lambda>(_, sy).
    rbind (logsqlite_log (sqlite_api env) (ndebug env) (memory env) (caller env) msg (d_sqlite d)) (\<lambda>(_, sq).
    Inr (PDNS_OK, d\<lparr>d_logfile := lf, d_syslog := sy, d_sqlite := sq\<rparr>))))"
  using assms
  by (cases "logfile_log (stdio_spill env) (ndebug env) msg (d_logfile d)";
      cases "syslog_log (ndebug env) msg (d_syslog d)";
      cases "logsqlite_log (sqlite_api env) (ndebug env) (memory env) (caller env) msg (d_sqlite d)")
    (auto simp: pdns_loggers_log_def each_engine_full log_engine_def)

section \<open>The background thread after the fork\<close>

lemma logsqlite_rrs_keeps:
  "logsqlite_rrs api nd alloc t rrs w s = Inr s' \<Longrightarrow> sq_world s' = sq_world s \<and> bgthread s' = bgthread s"
  by (induction rrs arbitrary: w s) (fastforce simp: push_row_def)+

lemma logsqlite_log_keeps:
  assumes "logsqlite_log api nd alloc t msg s = Inr (st, s')"
  shows "sq_world s' = sq_world s \<and> bgthread s' = bgthread s"
  using assms logsqlite_rrs_keeps
  by (fastforce simp: logsqlite_log_def push_row_def split: if_splits option.splits)

text \<open>What stays the same while no background thread exists and nobody rotates.\<close>

definition unattended :: "'w \<Rightarrow> ('h, 'w) daemon \<Rightarrow> bool" where
  "unattended w d \<longleftrightarrow> bgthread (d_sqlite d) = Bg_None \<and> sq_world (d_sqlite d) = w"

lemma log_engine_unattended:
  "unattended w d \<Longrightarrow> log_engine env msg e d = Inr d' \<Longrightarrow> unattended w d'"
  by (cases e) (auto simp: unattended_def log_engine_def dest: logsqlite_log_keeps)

lemma activity_unattended:
  assumes "unattended w d" "a \<noteq> Hangup" "activity_step env a d = Inr d'"
  shows "unattended w d'"
proof (cases a)
  case (Message m)
  then have "rfold (\<lambda>slot d. case pl_log slot of None \<Rightarrow> Inr d | Some e \<Rightarrow> log_engine env (Some m) e d)
      (take (engines_count d) (engines d)) d = Inr d'"
    using assms(3) by (auto simp: activity_step_def pdns_loggers_log_def each_engine_def)
  then show ?thesis
    by (rule rfold_invariant) (use assms(1) log_engine_unattended in \<open>auto split: option.splits\<close>)
next
  case Background
  then show ?thesis using assms(1,3) by (auto simp: activity_step_def background_step_def unattended_def)
qed (use assms(2) in simp)


section \<open>Command line and exit\<close>

text \<open>
  Asking for help does not end the program: \<^verbatim>\<open>parse_cli\<close> reports success after printing the usage, so
  that \<^verbatim>\<open>main\<close> goes on exactly as if it had been called without options.
\<close>

lemma help_starts_the_daemon:
  "main env default_config [prog, ''-h''] c d = main env default_config [prog] c d"
  by (simp add: main_def parse_cli_def)

section \<open>From the connection to the lines\<close>

lemma syslog_log_lines:
  assumes "loggable nd (sys_disabled s) (sys_rewrites_only s) m"
  shows "syslog_log nd (Some m) s =
    Inr (PDNS_OK, fold syslog_write_log (logged_lines (sys_disabled s) (sys_rewrites_only s) m) s)"
proof (cases "msg_selected (sys_disabled s) (sys_rewrites_only s) (Some m)")
  case True
  then obtain r where r: "m_response m = Some r" by (auto simp: msg_selected_def split: option.splits)
  with True assms show ?thesis
    using syslog_text.log_lines [OF True r, of nd] by (simp add: loggable_def logged_lines_def Let_def)
next
  case False
  then show ?thesis using syslog_text.log_skip [OF False, of nd] by (simp add: logged_lines_def)
qed

lemma fold_syslog_write:
  "map sl_text (sys_records (fold syslog_write_log ls s)) = map sl_text (sys_records s) @ ls"
  "sys_disabled (fold syslog_write_log ls s) = sys_disabled s"
  "sys_rewrites_only (fold syslog_write_log ls s) = sys_rewrites_only s"
  by (induction ls arbitrary: s) (simp_all add: syslog_write_log_def)

text \<open>The loggers as the connection thread calls them.\<close>

definition log_message :: "('h, 'w) surroundings \<Rightarrow> pbdnsmessage \<Rightarrow> ('h, 'w) daemon \<Rightarrow> ('h, 'w) daemon res" where
  "log_message env m d = rbind (pdns_loggers_log env (Some m) d) (\<lambda>(st, d'). Inr d')"

text \<open>A daemon that has started with the file and the syslog backend on the same filters and SQLite off.\<close>

definition text_logging :: "bool \<Rightarrow> bool \<Rightarrow> ('h, 'w) daemon \<Rightarrow> bool" where
  "text_logging off rewr d \<longleftrightarrow>
     table_full d \<and> sq_disabled (d_sqlite d) \<and> fp (d_logfile d) \<noteq> Fp_Closed \<and>
     lf_disabled (d_logfile d) = off \<and> lf_rewrites_only (d_logfile d) = rewr \<and>
     sys_disabled (d_syslog d) = off \<and> sys_rewrites_only (d_syslog d) = rewr"

lemma log_message_lines:
  assumes "text_logging off rewr d" "loggable (ndebug env) off rewr m"
  shows "\<exists>d'. log_message env m d = Inr d' \<and> text_logging off rewr d' \<and>
    took (log_text (logged_lines off rewr m)) (d_logfile d) (d_logfile d') \<and>
    d_syslog d' = fold syslog_write_log (logged_lines off rewr m) (d_syslog d)"
proof -
  obtain lf where lf: "logfile_log (stdio_spill env) (ndebug env) (Some m) (d_logfile d) = Inr (PDNS_OK, lf)"
    "took (log_text (logged_lines off rewr m)) (d_logfile d) lf"
    using logfile_log_took [of "ndebug env" "d_logfile d" m "stdio_spill env"] assms by (auto simp: text_logging_def)
  have sy: "syslog_log (ndebug env) (Some m) (d_syslog d) =
      Inr (PDNS_OK, fold syslog_write_log (logged_lines off rewr m) (d_syslog d))"
    using syslog_log_lines [of "ndebug env" "d_syslog d" m] assms by (simp add: text_logging_def)
  have "log_message env m d =
      Inr (d\<lparr>d_logfile := lf, d_syslog := fold syslog_write_log (logged_lines off rewr m) (d_syslog d)\<rparr>)"
    using assms(1) lf(1) sy
    by (simp add: log_message_def pdns_loggers_log_def each_engine_full log_engine_def text_logging_def
        table_full_def logsqlite_log_def)
  then show ?thesis
    using assms(1) lf(2) took_keeps [OF lf(2)]
    by (auto simp: text_logging_def table_full_def fold_syslog_write)
qed

lemma log_messages_lines:
  assumes "text_logging off rewr d" "list_all (loggable (ndebug env) off rewr) ms"
  shows "\<exists>d'. rfold (log_message env) ms d = Inr d' \<and> text_logging off rewr d' \<and>
    took (log_text (concat (map (logged_lines off rewr) ms))) (d_logfile d) (d_logfile d') \<and>
    map sl_text (sys_records (d_syslog d')) =
      map sl_text (sys_records (d_syslog d)) @ concat (map (logged_lines off rewr) ms)"
  using assms
proof (induction ms arbitrary: d)
  case Nil
  then show ?case by (simp add: log_text_def took_Nil)
next
  case (Cons m ms)
  obtain d1 where d1: "log_message env m d = Inr d1" "text_logging off rewr d1"
    "took (log_text (logged_lines off rewr m)) (d_logfile d) (d_logfile d1)"
    "d_syslog d1 = fold syslog_write_log (logged_lines off rewr m) (d_syslog d)"
    using log_message_lines [OF Cons.prems(1)] Cons.prems(2) by auto
  obtain d2 where d2: "rfold (log_message env) ms d1 = Inr d2" "text_logging off rewr d2"
    "took (log_text (concat (map (logged_lines off rewr) ms))) (d_logfile d1) (d_logfile d2)"
    "map sl_text (sys_records (d_syslog d2)) =
      map sl_text (sys_records (d_syslog d1)) @ concat (map (logged_lines off rewr) ms)"
    using Cons.IH [OF d1(2)] Cons.prems(2) by auto
  have "took (log_text (concat (map (logged_lines off rewr) (m # ms)))) (d_logfile d) (d_logfile d2)"
    using took_trans [OF d1(3) d2(3)] by (simp add: log_text_def)
  with d1 d2 show ?case by (simp add: fold_syslog_write)
qed

section \<open>An example daemon\<close>

definition example_env :: "(nat, mini_db) surroundings" where
  "example_env =
     \<lparr>ndebug = True, stdio_spill = (\<lambda>_. 0), sqlite_api = mini_sqlite, memory = True,
      readable = Map.empty, caller = 1\<rparr>"

definition example_daemon :: "(nat, mini_db) logsqlite \<Rightarrow> (nat, mini_db) daemon" where
  "example_daemon sq =
     \<lparr>d_globals = globals_zero, engines = all_engines, engines_count = 3, d_logfile = example_logfile,
      d_syslog = syslog_static, d_sqlite = sq\<rparr>"

lemma example_daemon_ok:
  "table_full (example_daemon sq)" "sq_disabled sq \<Longrightarrow> text_logging False True (example_daemon sq)"
  "loggable True False True example_msg"
  using example_ok example_fits
  by (simp_all add: table_full_def text_logging_def example_daemon_def syslog_static_def loggable_def Let_def)

lemma example_child_logs:
  "\<exists>d'. rfold (activity_step example_env) [Message example_msg, Background]
     (child_of_fork (example_daemon mini_state)) = Inr d'"
proof -
  let ?sq = "mini_state\<lparr>bgthread := Bg_None\<rparr>"
  have child: "child_of_fork (example_daemon mini_state) = example_daemon ?sq"
    by (simp add: child_of_fork_def example_daemon_def)
  obtain lf where lf: "logfile_log (\<lambda>_. 0) True (Some example_msg) example_logfile = Inr (PDNS_OK, lf)"
    using logfile_log_took [of True example_logfile example_msg "\<lambda>_. 0"] example_daemon_ok(3) by auto
  obtain sy where sy: "syslog_log True (Some example_msg) syslog_static = Inr (PDNS_OK, sy)"
    using syslog_log_lines [of True syslog_static example_msg] example_daemon_ok(3)
    by (simp add: syslog_static_def)
  obtain ws where ws: "message_rows example_msg example_response = Inr ws"
    using message_rows_total [OF example_ok(3,2)] example_ok(4) [of True] example_ok(2)
    by (auto simp: msg_printable_def)
  have wf: "fifo_q_wf (sq_fifo ?sq)" using mini_ok(4) by simp
  obtain c out where "slot_run (map (\<lambda>w. Push (sql_insert mini_sqlite w)) ws) (fifo_q_content (sq_fifo ?sq)) = (c, out)"
    by fastforce
  then obtain q where "mb_run (fifo_push_op True 1) (fifo_pop_item 1) (map (\<lambda>w. Push (sql_insert mini_sqlite w)) ws)
      (sq_fifo ?sq) = Inr (q, out)"
    using ndebug_fifo.run_slot [OF wf] by blast
  then have sq: "logsqlite_log mini_sqlite True True 1 (Some example_msg) ?sq = Inr (PDNS_OK, with_fifo ?sq q)"
    using logsqlite_log_run [OF mini_ok(1) _ example_ok(2) ws, of ?sq True 1] example_ok(1) mini_ok(2,3) by simp
  have "activity_step example_env (Message example_msg) (example_daemon ?sq) =
      Inr ((example_daemon ?sq)\<lparr>d_logfile := lf, d_syslog := sy, d_sqlite := with_fifo ?sq q\<rparr>)"
    using lf sy sq
    by (simp add: activity_step_def pdns_loggers_log_def each_engine_full table_full_def log_engine_def
        example_env_def example_daemon_def)
  moreover have "activity_step example_env Background
      ((example_daemon ?sq)\<lparr>d_logfile := lf, d_syslog := sy, d_sqlite := with_fifo ?sq q\<rparr>) =
      Inr ((example_daemon ?sq)\<lparr>d_logfile := lf, d_syslog := sy, d_sqlite := with_fifo ?sq q\<rparr>)"
    by (simp add: activity_step_def background_step_def with_fifo_def)
  ultimately show ?thesis unfolding child by simp
qed


end
