(* ===== verification/Safety.thy ===== *)
theory Safety
  imports Daemon
begin

text \<open>
  The running daemon as a state machine: its reachable states from the start of the loggers through
  messages, rotations, steps of the background thread and the fork, an invariant of these states,
  and which abnormal stops are possible in them.
\<close>

section \<open>Which stops are possible\<close>

definition only_stops :: "stop set \<Rightarrow> 'a res \<Rightarrow> bool" where
  "only_stops S m = (case m of Inl e \<Rightarrow> e \<in> S | Inr x \<Rightarrow> True)"

named_theorems stops_intros "rules for only_stops"

lemma only_stops_Inr [stops_intros, simp]: "only_stops S (Inr x)"
  by (simp add: only_stops_def)

lemma only_stops_Inl [simp]: "only_stops S (Inl e) \<longleftrightarrow> e \<in> S"
  by (simp add: only_stops_def)

lemma only_stops_rbind:
  "only_stops S m \<Longrightarrow> (\<And>x. m = Inr x \<Longrightarrow> only_stops S (f x)) \<Longrightarrow> only_stops S (rbind m f)"
  by (cases m) (auto simp: only_stops_def)

lemma only_stops_if [stops_intros]:
  "(c \<Longrightarrow> only_stops S a) \<Longrightarrow> (\<not> c \<Longrightarrow> only_stops S b) \<Longrightarrow> only_stops S (if c then a else b)"
  by simp

lemma only_stops_mono: "only_stops S m \<Longrightarrow> S \<subseteq> T \<Longrightarrow> only_stops T m"
  by (auto simp: only_stops_def split: sum.splits)

text \<open>The stops a message can cause: the ones its content provokes, and the asserted ones in a debug build.\<close>

definition message_stops :: "bool \<Rightarrow> stop set" where
  "message_stops nd = {Buffer_Overflow, Oob_Read} \<union> (if nd then {} else {Assert_Failed})"

lemma add_text_stops: "only_stops (message_stops nd) (add_text txt b)"
  by (simp add: add_text_def snprintf_def strncat_def Let_def message_stops_def)

lemma assert0_stops: "only_stops (message_stops nd) (assert0 nd x)"
  by (cases nd) (simp_all add: message_stops_def)

lemma bd_read_stops: "bdata_wf b \<Longrightarrow> bd_len b = n \<Longrightarrow> 0 < n \<Longrightarrow> only_stops S (bd_read n b)"
  by (simp add: bd_read_wf)

lemma bd_as_cstring_stops: "only_stops (message_stops nd) (bd_as_cstring b)"
  by (simp add: bd_as_cstring_def message_stops_def split: option.split)

lemmas text_stops = add_text_stops assert0_stops bd_read_stops bd_as_cstring_stops

section \<open>The file and the syslog backend\<close>

lemma logfile_head_stops:
  assumes "msg_wf m"
  shows "only_stops (message_stops nd) (logfile_head nd m r b)"
proof -
  have f: "only_stops (message_stops nd) (logfile_from m b)" for b
    using assms unfolding logfile_from_def msg_wf_def
    by (intro stops_intros only_stops_rbind text_stops) auto
  have q: "only_stops (message_stops nd) (logfile_question q b)" for q b
    unfolding logfile_question_def
    by (cases q) (auto intro!: stops_intros only_stops_rbind text_stops)
  have r: "only_stops (message_stops nd) (logfile_response r b)" for b
    unfolding logfile_response_def by (intro stops_intros only_stops_rbind text_stops)
  show ?thesis
    unfolding logfile_head_def by (intro stops_intros only_stops_rbind text_stops f q r)
qed

lemma logfile_rr_stops:
  assumes "rr_wf rr"
  shows "only_stops (message_stops nd) (logfile_rr t rr b)"
proof -
  have d: "only_stops (message_stops nd) (logfile_rdata t rr b)" for b
    using assms unfolding logfile_rdata_def rr_wf_def
    by (intro stops_intros only_stops_rbind text_stops) auto
  show ?thesis
    unfolding logfile_rr_def by (intro stops_intros only_stops_rbind text_stops d)
qed

lemma logfile_rrs_stops:
  assumes "list_all rr_wf rrs" "fp s \<noteq> Fp_Closed"
  shows "only_stops (message_stops nd) (logfile_rrs spill t rrs b s)"
  using assms
proof (induction rrs arbitrary: t b s)
  case (Cons rr rrs)
  have "only_stops (message_stops nd) (logfile_rrs spill (t + 1) rrs b' (logfile_put spill l s))" for b' l
    using Cons logfile_text.put_ready [of s spill l] by simp
  with Cons.prems show ?case
    by (simp add: logfile_write_log_put) (rule only_stops_rbind, auto intro: logfile_rr_stops)
qed simp

lemma syslog_rrs_stops:
  "list_all rr_wf rrs \<Longrightarrow> only_stops (message_stops nd) (syslog_rrs t rrs b s)"
proof (induction rrs arbitrary: t b s)
  case (Cons rr rrs)
  then show ?case
    by (auto simp: syslog_texts_eq intro!: only_stops_rbind logfile_rr_stops)
qed simp

lemma logfile_log_stops:
  assumes "\<And>m. msg = Some m \<Longrightarrow> msg_wf m" "fp s \<noteq> Fp_Closed"
  shows "only_stops (message_stops nd) (logfile_log spill nd msg s)"
proof -
  have "only_stops (message_stops nd) (logfile_log spill nd (Some m) s)"
    if m: "msg_wf m" "m_response m = Some r" for m r
    using m assms(2) unfolding logfile_log_def
    by (auto simp: msg_wf_def logfile_write_log_put
        intro!: stops_intros only_stops_rbind logfile_head_stops logfile_rrs_stops)
  then show ?thesis
    using assms(1) by (cases msg; cases "m_response (the msg)") (auto simp: logfile_log_def)
qed

lemma syslog_log_stops:
  assumes "\<And>m. msg = Some m \<Longrightarrow> msg_wf m"
  shows "only_stops (message_stops nd) (syslog_log nd msg s)"
proof -
  have "only_stops (message_stops nd) (syslog_log nd (Some m) s)"
    if m: "msg_wf m" "m_response m = Some r" for m r
    using m unfolding syslog_log_def
    by (auto simp: msg_wf_def syslog_texts_eq
        intro!: stops_intros only_stops_rbind logfile_head_stops syslog_rrs_stops)
  then show ?thesis
    using assms by (cases msg; cases "m_response (the msg)") (auto simp: syslog_log_def)
qed

lemma logfile_rrs_open:
  "fp s \<noteq> Fp_Closed \<Longrightarrow> logfile_rrs spill t rrs b s = Inr s' \<Longrightarrow> fp s' \<noteq> Fp_Closed"
proof (induction rrs arbitrary: t b s)
  case (Cons rr rrs)
  from Cons.prems obtain b' where "logfile_rrs spill (t + 1) rrs b' (logfile_put spill (lb_str b') s) = Inr s'"
    by (auto simp: logfile_write_log_put)
  then show ?case by (rule Cons.IH [OF logfile_text.put_ready [OF Cons.prems(1)]])
qed simp

lemma logfile_log_open:
  assumes "fp s \<noteq> Fp_Closed" "logfile_log spill nd msg s = Inr (st, s')"
  shows "fp s' \<noteq> Fp_Closed"
  using assms logfile_rrs_open [OF assms(1)] logfile_text.put_ready [OF assms(1)]
  by (auto simp: logfile_log_selected Let_def logfile_write_log_put split: if_splits)

lemma fopen_append_open: "fst (fopen_append p d) \<noteq> Fp_Closed"
  by (simp add: fopen_append_def split: option.split)

lemma logfile_rotate_open:
  assumes "fp s \<noteq> Fp_Closed"
  shows "\<exists>st s'. logfile_rotate s = Inr (st, s') \<and> fp s' \<noteq> Fp_Closed"
proof (cases "fp s")
  case (Fp_Open i buf)
  then show ?thesis
    using fopen_append_open [of "the (lf_file s)" "append_to i buf (lf_disk s)"]
    by (cases "lf_file s") (auto simp: logfile_rotate_def freopen_append_def fclose_def fflush_def split: prod.split)
qed (use assms in \<open>simp_all add: logfile_rotate_def\<close>)

section \<open>The SQLite backend\<close>

text \<open>The queue is NULL (SQLite off, or no memory) or well-formed.\<close>

definition queue_ok :: "string fifo option \<Rightarrow> bool" where
  "queue_ok q \<longleftrightarrow> q = None \<or> fifo_q_wf q"

lemma fifo_push_item_safe:
  assumes "queue_ok q"
  shows "only_stops (message_stops nd) (fifo_push_item nd alloc t q x) \<and>
    (\<forall>q' st. fifo_push_item nd alloc t q x = Inr (q', st) \<longrightarrow> queue_ok q')"
proof (cases "q = None \<or> x = None")
  case True
  then show ?thesis using assms by (auto simp: fifo_push_item_def)
next
  case False
  then obtain f v where fv: "q = Some f" "x = Some v" by auto
  with assms have wf: "fifo_wf f" by (simp add: queue_ok_def fifo_q_wf_def)
  show ?thesis
  proof (cases alloc)
    case True
    then show ?thesis
      using fv fifo_push_item_empty [OF wf, of nd t v] fifo_push_item_full [OF wf, of nd t v]
        fifo_wf_put_empty(1) [OF wf, of v] fifo_wf_put_full(1) [OF wf, of v]
      by (cases "fifo_content f") (auto simp: queue_ok_def fifo_q_wf_def message_stops_def)
  next
    case False
    then show ?thesis using fv assms by (auto simp: fifo_push_item_def fifo_push_def)
  qed
qed

lemma push_row_safe:
  assumes "queue_ok (sq_fifo s)"
  shows "only_stops (message_stops nd) (push_row api nd alloc t w s)"
    and "push_row api nd alloc t w s = Inr s' \<Longrightarrow> queue_ok (sq_fifo s')"
  using fifo_push_item_safe [OF assms, of nd alloc t "prepare_sql api w"]
  by (auto simp: push_row_def intro!: only_stops_rbind)

lemma row_of_rr_stops:
  assumes "rr_wf rr"
  shows "only_stops (message_stops nd) (row_of_rr rr w)"
proof -
  have "only_stops (message_stops nd) (row_rdata_of rr old)" for old
    using assms unfolding row_rdata_of_def rr_wf_def
    by (intro stops_intros only_stops_rbind text_stops) auto
  then show ?thesis unfolding row_of_rr_def by (intro only_stops_rbind) auto
qed

lemma logsqlite_rrs_safe:
  assumes "list_all rr_wf rrs" "queue_ok (sq_fifo s)"
  shows "only_stops (message_stops nd) (logsqlite_rrs api nd alloc t rrs w s) \<and>
    (\<forall>s'. logsqlite_rrs api nd alloc t rrs w s = Inr s' \<longrightarrow> queue_ok (sq_fifo s'))"
  using assms
proof (induction rrs arbitrary: w s)
  case (Cons rr rrs)
  have ih: "only_stops (message_stops nd) (logsqlite_rrs api nd alloc t rrs w' s1) \<and>
      (\<forall>s'. logsqlite_rrs api nd alloc t rrs w' s1 = Inr s' \<longrightarrow> queue_ok (sq_fifo s'))"
    if "push_row api nd alloc t w' s = Inr s1" for w' s1
    using Cons.IH [of s1 w'] Cons.prems push_row_safe(2) [OF Cons.prems(2) that] by simp
  show ?case
    using Cons.prems ih by (auto intro!: only_stops_rbind row_of_rr_stops push_row_safe(1))
qed simp

lemma logsqlite_log_safe:
  assumes "\<And>m. msg = Some m \<Longrightarrow> msg_wf m" "queue_ok (sq_fifo s)"
  shows "only_stops (message_stops nd) (logsqlite_log api nd alloc t msg s)"
    and "logsqlite_log api nd alloc t msg s = Inr (st, s') \<Longrightarrow> queue_ok (sq_fifo s')"
proof -
  have row: "only_stops (message_stops nd) (row_of_message m r)" if "msg_wf m" for m r
    using that unfolding row_of_message_def msg_wf_def
    by (intro stops_intros only_stops_rbind text_stops) auto
  have *: "only_stops (message_stops nd) (logsqlite_log api nd alloc t (Some m) s) \<and>
      (logsqlite_log api nd alloc t (Some m) s = Inr (st, s') \<longrightarrow> queue_ok (sq_fifo s'))"
    if m: "msg_wf m" "m_response m = Some r" for m r
  proof -
    have wf: "list_all rr_wf (r_rrs r)" using m by (simp add: msg_wf_def)
    note rrs = logsqlite_rrs_safe [OF wf assms(2), of nd api alloc t]
    show ?thesis
      using m assms(2) rrs push_row_safe(1) [OF assms(2)] push_row_safe(2) [OF assms(2)] row
      unfolding logsqlite_log_def by (auto intro!: stops_intros only_stops_rbind)
  qed
  have skip: "logsqlite_log api nd alloc t msg s = Inr (PDNS_OK, s)" if "msg = None \<or> m_response (the msg) = None"
    using that by (auto simp: logsqlite_log_def split: option.splits)
  have "only_stops (message_stops nd) (logsqlite_log api nd alloc t msg s) \<and>
      (logsqlite_log api nd alloc t msg s = Inr (st, s') \<longrightarrow> queue_ok (sq_fifo s'))"
  proof (cases "msg = None \<or> m_response (the msg) = None")
    case True
    then show ?thesis using skip assms(2) by auto
  next
    case False
    then obtain m r where "msg = Some m" "m_response m = Some r" by auto
    with * assms(1) show ?thesis by blast
  qed
  then show "only_stops (message_stops nd) (logsqlite_log api nd alloc t msg s)"
    "logsqlite_log api nd alloc t msg s = Inr (st, s') \<Longrightarrow> queue_ok (sq_fifo s')"
    by blast+
qed

lemma db_open_total: "\<exists>st s'. db_open api file s = Some (st, s') \<and> sq_fifo s' = sq_fifo s"
  by (auto simp: db_open_def db_exec_depth db_flush_depth Let_def simp del: db_flush.simps split: prod.split)

lemma db_open_thread:
  assumes "db_open api file s = Some (st, s')"
  shows "bgrunning s' = bgrunning s" "bgthread s' = bgthread s"
  using assms
  by (auto simp: db_open_def db_exec_depth db_flush_depth flush_once_keeps Let_def simp del: db_flush.simps
      split: prod.splits if_splits)

lemma logsqlite_rotate_safe:
  assumes "queue_ok (sq_fifo s)"
  shows "\<exists>s'. logsqlite_rotate t api s = Some (Inr (PDNS_OK, s')) \<and> queue_ok (sq_fifo s')"
proof -
  obtain q where q: "fifo_lock t (sq_fifo s) = Inr q" "fifo_unlock t q = sq_fifo s"
  proof (cases "sq_fifo s = None")
    case True
    with that show ?thesis by (simp add: fifo_lock_def fifo_unlock_def)
  next
    case False
    with assms fifo_lock_unlock [of "sq_fifo s" t] that show ?thesis by (auto simp: queue_ok_def)
  qed
  obtain st s2 where "db_open api (dbfile (snd (db_close api (s\<lparr>sq_fifo := q\<rparr>)))) (snd (db_close api (s\<lparr>sq_fifo := q\<rparr>))) = Some (st, s2)"
    "sq_fifo s2 = q"
    using db_open_total [of api _ "snd (db_close api (s\<lparr>sq_fifo := q\<rparr>))"] by (fastforce simp: db_close_def)
  then show ?thesis using q assms by (cases "db s") (simp_all add: logsqlite_rotate_def Let_def)
qed

lemma bg_thread_round_safe:
  assumes "queue_ok (sq_fifo s)"
  shows "\<exists>s'. bg_thread_round t api s = Some (Inr s') \<and> queue_ok (sq_fifo s')"
proof (cases "sq_fifo s = None")
  case True
  then show ?thesis by (simp add: bg_thread_round_def fifo_pop_item_def queue_ok_def)
next
  case False
  with assms obtain q where q: "fifo_pop_item t (sq_fifo s) = Inr (q, fifo_q_content (sq_fifo s))" "fifo_q_wf q"
    using ndebug_fifo.pop_spec [of "sq_fifo s" t] by (auto simp: queue_ok_def)
  then show ?thesis
    using assms by (cases "fifo_q_content (sq_fifo s)") (simp_all add: bg_thread_round_def queue_ok_def db_exec_depth)
qed

section \<open>Reachable states\<close>

definition wf_activity :: "activity \<Rightarrow> bool" where
  "wf_activity a = (case a of Message m \<Rightarrow> msg_wf m | _ \<Rightarrow> True)"

text \<open>
  From the program's initial data: the loggers are started, the daemon may fork, and then messages,
  rotations and steps of the background thread follow in any order.
\<close>

inductive reachable :: "('h, 'w) surroundings \<Rightarrow> ('h, 'w) daemon \<Rightarrow> bool" for env where
  start: "loggers_initialize env conf (daemon_start dk w) = Inr (st, d) \<Longrightarrow> reachable env d"
| fork: "reachable env d \<Longrightarrow> reachable env (child_of_fork d)"
| step: "reachable env d \<Longrightarrow> wf_activity a \<Longrightarrow> activity_step env a d = Inr d' \<Longrightarrow> reachable env d'"

inductive_cases reachable_cases: "reachable env d"

definition daemon_inv :: "('h, 'w) daemon \<Rightarrow> bool" where
  "daemon_inv d \<longleftrightarrow> table_full d \<and> fp (d_logfile d) \<noteq> Fp_Closed \<and> queue_ok (sq_fifo (d_sqlite d))"

text \<open>Starting: each engine is left in a state that satisfies its part of the invariant.\<close>

lemma fold_set_logfile: "fp (fold (\<lambda>(n, v). set_logfile n v) ps s) = fp s"
proof -
  have "fp (set_logfile n v s) = fp s" for n v s by (simp add: set_logfile_def)
  then show ?thesis by (induction ps arbitrary: s) auto
qed

lemma set_sqlite_fifo [simp]: "sq_fifo (set_sqlite n v s) = sq_fifo s"
  by (simp add: set_sqlite_def)

lemma fold_set_sqlite: "sq_fifo (fold (\<lambda>(n, v). set_sqlite n v) ps s) = sq_fifo s"
  by (induction ps arbitrary: s) auto

lemma logfile_init_open:
  assumes "logfile_init fs cf s = Some (st, s')" "fp s = Fp_Null"
  shows "fp s' \<noteq> Fp_Closed"
proof -
  have *: "fp (snd (the (ini_parse fs f logfile_opt_handler s))) = fp s" for f
    by (cases "fs f") (simp_all add: ini_parse_def logfile_ini.parse_file_own fold_set_logfile)
  show ?thesis
  proof (cases "zstr cf")
    case True
    then show ?thesis using assms by (simp add: logfile_init_def)
  next
    case False
    then obtain err s1 where s1: "ini_parse fs (the cf) logfile_opt_handler s = Some (err, s1)"
      using assms(1) by (auto simp: logfile_init_def)
    then have "fp s1 = Fp_Null" using * [of "the cf"] assms(2) by simp
    with s1 False assms(1) fopen_append_open [of "the (lf_file s1)" "lf_disk s1"] show ?thesis
      by (auto simp: logfile_init_def split: if_splits prod.splits)
  qed
qed

lemma logsqlite_init_queue:
  assumes "logsqlite_init api alloc fs cf s = Some (st, s')" "sq_fifo s = None"
  shows "queue_ok (sq_fifo s')"
proof (cases "zstr cf")
  case True
  then show ?thesis using assms by (simp add: logsqlite_init_def queue_ok_def)
next
  case False
  then obtain err s1 where s1: "ini_parse fs (the cf) sqlite_opt_handler s = Some (err, s1)"
    using assms(1) by (auto simp: logsqlite_init_def bind_eq_Some_conv)
  have "sq_fifo s1 = None"
    using s1 assms(2)
    by (cases "fs (the cf)") (auto simp: ini_parse_def sqlite_ini.parse_file_own fold_set_sqlite)
  moreover have "queue_ok (fifo_init alloc)"
    using fifo_q_init by (cases alloc) (simp_all add: queue_ok_def fifo_init_def)
  ultimately show ?thesis
    using assms(1) s1 False db_open_total [of api "dbfile s1" "s1\<lparr>sq_fifo := fifo_init alloc, bgthread := Bg_Created\<rparr>"]
    by (auto simp: logsqlite_init_def bg_thread_start_def Let_def queue_ok_def split: if_splits)
qed

lemma start_inv:
  assumes "loggers_initialize env conf (daemon_start dk w) = Inr (st, d)"
  shows "daemon_inv d"
proof -
  have c0: "engines_count (daemon_start dk w :: ('a, 'b) daemon) = 0" by (simp add: daemon_start_def)
  let ?d = "(daemon_start dk w)\<lparr>engines := all_engines, engines_count := 3\<rparr>"
  have "each_engine pl_start (start_engine env conf) ?d = Inr d"
    using assms unfolding loggers_initialize_def add_engines [OF c0] by auto
  then have "rbind (start_engine env conf Logfile_Engine ?d)
      (\<lambda>d. rbind (start_engine env conf Syslog_Engine d) (start_engine env conf Sqlite_Engine)) = Inr d"
    by (simp add: each_engine_full table_full_def)
  then show ?thesis
    using loggers_initialize_full(2) [OF c0 assms]
    by (auto simp: daemon_inv_def start_engine_def returning_def daemon_start_def logfile_static_def logsqlite_static_def
        split: option.splits dest!: logfile_init_open logsqlite_init_queue)
qed

section \<open>The invariant is kept, and what can stop the daemon\<close>

text \<open>One call of an engine from a state that satisfies the invariant.\<close>

lemma log_engine_safe:
  assumes "daemon_inv d" "\<And>m. msg = Some m \<Longrightarrow> msg_wf m"
  shows "only_stops (message_stops (ndebug env)) (log_engine env msg e d)"
    and "log_engine env msg e d = Inr d' \<Longrightarrow> daemon_inv d'"
proof -
  have inv: "table_full d" "fp (d_logfile d) \<noteq> Fp_Closed" "queue_ok (sq_fifo (d_sqlite d))"
    using assms(1) by (simp_all add: daemon_inv_def)
  have keep: "fp s' \<noteq> Fp_Closed"
    if "logfile_log (stdio_spill env) (ndebug env) msg (d_logfile d) = Inr (st, s')" for st s'
    using logfile_log_open [OF inv(2) that] .
  show "only_stops (message_stops (ndebug env)) (log_engine env msg e d)"
    using assms(2) inv
    by (cases e) (auto simp: log_engine_def
        intro!: only_stops_rbind logfile_log_stops syslog_log_stops logsqlite_log_safe(1))
  have keep_q: "queue_ok (sq_fifo s')"
    if "logsqlite_log (sqlite_api env) (ndebug env) (memory env) (caller env) msg (d_sqlite d) = Inr (st, s')" for st s'
    using logsqlite_log_safe(2) [OF assms(2) inv(3) that] .
  show "log_engine env msg e d = Inr d' \<Longrightarrow> daemon_inv d'"
    using inv keep keep_q
    by (cases e) (auto simp: log_engine_def daemon_inv_def table_full_def)
qed

lemma rotate_engine_safe:
  assumes "daemon_inv d"
  shows "\<exists>d'. rotate_engine env e d = Inr d' \<and> daemon_inv d'"
proof (cases e)
  case Logfile_Engine
  have "fp (d_logfile d) \<noteq> Fp_Closed" using assms by (simp add: daemon_inv_def)
  then obtain st s where "logfile_rotate (d_logfile d) = Inr (st, s)" "fp s \<noteq> Fp_Closed"
    using logfile_rotate_open by blast
  then show ?thesis using assms Logfile_Engine by (simp add: rotate_engine_def daemon_inv_def table_full_def)
next
  case Syslog_Engine
  then show ?thesis using assms by (simp add: rotate_engine_def daemon_inv_def table_full_def)
next
  case Sqlite_Engine
  then show ?thesis
    using assms logsqlite_rotate_safe [of "d_sqlite d" "caller env" "sqlite_api env"]
    by (auto simp: rotate_engine_def daemon_inv_def table_full_def returning_def)
qed

text \<open>Going through the whole table.\<close>

lemma each_engine_safe:
  assumes "daemon_inv d"
    and "\<And>e d. daemon_inv d \<Longrightarrow> only_stops S (f e d)"
    and "\<And>e d d'. daemon_inv d \<Longrightarrow> f e d = Inr d' \<Longrightarrow> daemon_inv d'"
    and "member logfile_engine = Some Logfile_Engine" "member syslog_engine = Some Syslog_Engine"
      "member sqlite_engine = Some Sqlite_Engine"
  shows "only_stops S (each_engine member f d)" and "each_engine member f d = Inr d' \<Longrightarrow> daemon_inv d'"
proof -
  have full: "table_full d" using assms(1) by (simp add: daemon_inv_def)
  show "only_stops S (each_engine member f d)"
    unfolding each_engine_full [OF full assms(4-6)]
    by (intro only_stops_rbind assms(2)) (use assms(1,3) in blast)+
  show "each_engine member f d = Inr d' \<Longrightarrow> daemon_inv d'"
    unfolding each_engine_full [OF full assms(4-6)] rbind_Inr_iff using assms(1,3) by metis
qed

lemma background_step_safe:
  assumes "daemon_inv d"
  shows "\<exists>d'. background_step env d = Inr d' \<and> daemon_inv d'"
  using assms bg_thread_round_safe [of "d_sqlite d" "Suc (caller env)" "sqlite_api env"]
  by (cases "bgthread (d_sqlite d)")
    (auto simp: background_step_def daemon_inv_def table_full_def returning_def bg_thread_begin_def)

lemma activity_safe:
  assumes "daemon_inv d" "wf_activity a"
  shows "only_stops (message_stops (ndebug env)) (activity_step env a d)"
    and "activity_step env a d = Inr d' \<Longrightarrow> daemon_inv d'"
proof -
  have log: "only_stops (message_stops (ndebug env)) (each_engine pl_log (log_engine env (Some m)) d)"
    "each_engine pl_log (log_engine env (Some m)) d = Inr d1 \<Longrightarrow> daemon_inv d1" if "msg_wf m" for m d1
  proof -
    have 1: "only_stops (message_stops (ndebug env)) (log_engine env (Some m) e d2)" if "daemon_inv d2" for e d2
      using log_engine_safe(1) [OF that, where msg = "Some m" and env = env and e = e] \<open>msg_wf m\<close> by simp
    have 2: "daemon_inv d3" if "daemon_inv d2" "log_engine env (Some m) e d2 = Inr d3" for e d2 d3
      using log_engine_safe(2) [OF that(1) _ that(2)] \<open>msg_wf m\<close> by simp
    show "only_stops (message_stops (ndebug env)) (each_engine pl_log (log_engine env (Some m)) d)"
      by (rule each_engine_safe(1) [OF assms(1) 1 2]) simp_all
    show "each_engine pl_log (log_engine env (Some m)) d = Inr d1 \<Longrightarrow> daemon_inv d1"
      by (rule each_engine_safe(2) [OF assms(1) 1 2]) simp_all
  qed
  have rotate: "only_stops (message_stops (ndebug env)) (each_engine pl_rotate (rotate_engine env) d)"
    "each_engine pl_rotate (rotate_engine env) d = Inr d1 \<Longrightarrow> daemon_inv d1" for d1
  proof -
    have 1: "only_stops (message_stops (ndebug env)) (rotate_engine env e d2)" if "daemon_inv d2" for e d2
      using rotate_engine_safe [OF that, of env e] by auto
    have 2: "daemon_inv d3" if "daemon_inv d2" "rotate_engine env e d2 = Inr d3" for e d2 d3
      using rotate_engine_safe [OF that(1), of env e] that(2) by auto
    show "only_stops (message_stops (ndebug env)) (each_engine pl_rotate (rotate_engine env) d)"
      by (rule each_engine_safe(1) [OF assms(1) 1 2]) simp_all
    show "each_engine pl_rotate (rotate_engine env) d = Inr d1 \<Longrightarrow> daemon_inv d1"
      by (rule each_engine_safe(2) [OF assms(1) 1 2]) simp_all
  qed
  show "only_stops (message_stops (ndebug env)) (activity_step env a d)"
    using assms(2) log(1) rotate(1) background_step_safe [OF assms(1), of env]
    by (cases a) (auto simp: activity_step_def wf_activity_def pdns_loggers_log_def signal_rotate_def
        pdns_loggers_rotate_def intro!: only_stops_rbind)
  show "activity_step env a d = Inr d' \<Longrightarrow> daemon_inv d'"
    using assms(2) log(2) rotate(2) background_step_safe [OF assms(1), of env]
    by (cases a) (auto simp: activity_step_def wf_activity_def pdns_loggers_log_def signal_rotate_def
        pdns_loggers_rotate_def)
qed

lemma reachable_inv: "reachable env d \<Longrightarrow> daemon_inv d"
proof (induction rule: reachable.induct)
  case (start conf dk w st d)
  then show ?case by (rule start_inv)
next
  case (fork d)
  then show ?case by (simp add: daemon_inv_def child_of_fork_def table_full_def)
next
  case (step d a d')
  then show ?case using activity_safe(2) by blast
qed


definition example_start :: "(nat, mini_db) daemon" where
  "example_start = daemon_start example_disk \<lparr>durable = [], open_tx = None\<rparr>"

lemma reachable_start_default: "reachable example_env (example_start\<lparr>engines := all_engines, engines_count := 3\<rparr>)"
proof -
  have c0: "engines_count example_start = 0" by (simp add: example_start_def daemon_start_def)
  have "each_engine pl_start (start_engine example_env None) (example_start\<lparr>engines := all_engines, engines_count := 3\<rparr>) =
      Inr (example_start\<lparr>engines := all_engines, engines_count := 3\<rparr>)"
    by (simp add: each_engine_full table_full_def start_engine_def logfile_init_def syslog_init_def
        logsqlite_init_def returning_def)
  then have "loggers_initialize example_env None example_start =
      Inr (PDNS_OK, example_start\<lparr>engines := all_engines, engines_count := 3\<rparr>)"
    unfolding loggers_initialize_def add_engines [OF c0] by simp
  then show ?thesis unfolding example_start_def by (rule reachable.start)
qed


text \<open>
  C8. The invariant of the running daemon: in every reachable state the table holds the three engines,
  the log file's stream is NULL or open, and the queue is NULL or well-formed with both its locks
  free, holding at most one statement.
\<close>

theorem reachable_invariant:
  assumes "reachable env d"
  shows "engines d = [logfile_engine, syslog_engine, sqlite_engine] \<and> engines_count d = 3 \<and>
    fp (d_logfile d) \<noteq> Fp_Closed \<and>
    (case sq_fifo (d_sqlite d) of
       None \<Rightarrow> True
     | Some f \<Rightarrow> fifo_mutex f = mutex_init \<and> sync_mutex f = mutex_init \<and> fifo_head f = fifo_tail f)"
  using reachable_inv [OF assms]
  by (auto simp: daemon_inv_def table_full_def all_engines_def queue_ok_def fifo_q_wf_def fifo_wf_def split: option.splits)

theorem reachable_invariant_witness:
  "\<exists>d. reachable example_env d \<and>
    (engines d = [logfile_engine, syslog_engine, sqlite_engine] \<and> engines_count d = 3 \<and>
     fp (d_logfile d) \<noteq> Fp_Closed \<and>
     (case sq_fifo (d_sqlite d) of
        None \<Rightarrow> True
      | Some f \<Rightarrow> fifo_mutex f = mutex_init \<and> sync_mutex f = mutex_init \<and> fifo_head f = fifo_tail f))"
  using reachable_invariant [OF reachable_start_default] reachable_start_default by blast

end
