(* ===== verification/Exit_Status.thy ===== *)
theory Exit_Status
  imports Safety
begin

text \<open>
  How the program ends, \<^verbatim>\<open>main\<close> of \<^verbatim>\<open>src/pdns-logger.c\<close> as a whole: command line, configuration,
  start of the engines, fork, socket, accept loop and shutdown together decide the exit status.
\<close>

section \<open>The settings a run works with\<close>

text \<open>
  The text of the configuration file and the settings after reading it, or nothing when the options
  are wrong, the file cannot be read or has a syntax error.
\<close>

definition settings_of :: "('h, 'w) surroundings \<Rightarrow> string \<Rightarrow> string list \<Rightarrow> (string \<times> globals) option" where
  "settings_of env dflt argv =
     (case parse_cli globals_zero argv of (st, g) \<Rightarrow>
        if st \<noteq> PDNS_OK then None
        else
          let f = (if zstr (config_file g) then dflt else the (config_file g))
          in if f = [] then None
             else case readable env f of
               None \<Rightarrow> None
             | Some file \<Rightarrow>
                 if ini_syntax_error file = 0
                 then Some (file, fold (\<lambda>(n, v). set_global n v) (section_settings ''globals'' file)
                                    (g\<lparr>config_file := Some f\<rparr>))
                 else None)"

text \<open>The configuration switches the SQLite engine on and names its file.\<close>

definition sqlite_on :: "string \<Rightarrow> ('h, 'w) logsqlite \<Rightarrow> bool" where
  "sqlite_on file s0 \<longleftrightarrow>
     (let s = fold (\<lambda>(n, v). set_sqlite n v) (section_settings ''sqlite3'' file) s0
      in \<not> sq_disabled s \<and> \<not> zstr (dbfile s))"

text \<open>Every call of \<^verbatim>\<open>socket_start\<close> that is checked succeeds.\<close>

definition net_ok :: "net_answers \<Rightarrow> bool" where
  "net_ok a \<longleftrightarrow> na_socket a \<noteq> -1 \<and> 0 \<le> na_bind a \<and> na_getfl a \<noteq> -1 \<and> na_setfl a \<noteq> -1 \<and> 0 \<le> na_listen a"

lemma set_global_config [simp]: "config_file (set_global n v g) = config_file g"
  by (simp add: set_global_def)

lemma fold_set_global_config [simp]:
  "config_file (fold (\<lambda>(n, v). set_global n v) ps g) = config_file g"
  by (induction ps arbitrary: g) auto

lemma set_sqlite_bgthread [simp]: "bgthread (set_sqlite n v s) = bgthread s"
  by (simp add: set_sqlite_def)

lemma fold_set_sqlite_bgthread: "bgthread (fold (\<lambda>(n, v). set_sqlite n v) ps s) = bgthread s"
  by (induction ps arbitrary: s) auto

section \<open>Starting the engines\<close>

text \<open>Starting always returns, and leaves a background thread exactly when SQLite is on.\<close>

lemma logsqlite_init_thread:
  assumes "readable env f = Some file" "f \<noteq> []" "ini_syntax_error file = 0"
  shows "\<exists>st s'. logsqlite_init api alloc (readable env) (Some f) s = Some (st, s') \<and>
    bgthread s' = (if sqlite_on file s then Bg_Created else bgthread s)"
proof -
  let ?s1 = "fold (\<lambda>(n, v). set_sqlite n v) (section_settings ''sqlite3'' file) s"
  let ?s2 = "?s1\<lparr>sq_fifo := fifo_init alloc, bgthread := Bg_Created\<rparr>"
  have parse: "ini_parse (readable env) f sqlite_opt_handler s = Some (0, ?s1)"
    using assms by (simp add: ini_parse_def sqlite_ini.parse_file_own section_settings_def)
  obtain st s' where op: "db_open api (dbfile ?s2) ?s2 = Some (st, s')" using db_open_total by blast
  then have "bgthread s' = Bg_Created" using db_open_thread(2) [OF op] by simp
  with op parse assms(2) show ?thesis
    by (auto simp: logsqlite_init_def bg_thread_start_def sqlite_on_def fold_set_sqlite_bgthread Let_def)
qed

lemma engines_start:
  assumes "readable env f = Some file" "f \<noteq> []" "ini_syntax_error file = 0" "engines_count d = 0"
    "fp (d_logfile d) = Fp_Null"
  shows "\<exists>d'. loggers_initialize env (Some f) d = Inr (PDNS_OK, d') \<and> table_full d' \<and> fp (d_logfile d') \<noteq> Fp_Closed \<and>
    bgthread (d_sqlite d') = (if sqlite_on file (d_sqlite d) then Bg_Created else bgthread (d_sqlite d))"
proof -
  let ?d = "d\<lparr>engines := all_engines, engines_count := 3\<rparr>"
  have full: "table_full ?d" by (simp add: table_full_def)
  obtain st1 s1 where lf: "logfile_init (readable env) (Some f) (d_logfile d) = Some (st1, s1)"
    using assms(1,2) by (cases "logfile_init (readable env) (Some f) (d_logfile d)")
      (auto simp: logfile_init_def ini_parse_def logfile_ini.parse_file_own)
  obtain st2 s2 where sy: "syslog_init (readable env) (Some f) (d_syslog d) = Some (st2, s2)"
    using assms(1,2) by (cases "syslog_init (readable env) (Some f) (d_syslog d)")
      (auto simp: syslog_init_def ini_parse_def syslog_ini.parse_file_own)
  obtain st3 s3 where sq: "logsqlite_init (sqlite_api env) (memory env) (readable env) (Some f) (d_sqlite d) = Some (st3, s3)"
    "bgthread s3 = (if sqlite_on file (d_sqlite d) then Bg_Created else bgthread (d_sqlite d))"
    using logsqlite_init_thread [OF assms(1-3)] by blast
  have "each_engine pl_start (start_engine env (Some f)) ?d =
      Inr (?d\<lparr>d_logfile := s1, d_syslog := s2, d_sqlite := s3\<rparr>)"
    using lf sy sq(1) by (simp add: each_engine_full [OF full] start_engine_def returning_def)
  then have "loggers_initialize env (Some f) d = Inr (PDNS_OK, ?d\<lparr>d_logfile := s1, d_syslog := s2, d_sqlite := s3\<rparr>)"
    unfolding loggers_initialize_def add_engines [OF assms(4)] by simp
  then show ?thesis using sq(2) full logfile_init_open [OF lf assms(5)] by (auto simp: table_full_def)
qed

section \<open>Serving and stopping\<close>

lemma handle_fd_running: "handle_fd nd new early i st = Inr st' \<Longrightarrow> running (ls_conf st') = running (ls_conf st)"
  by (auto simp: handle_fd_def assert0_def Let_def split: if_splits)

lemma socket_loop_ends:
  assumes "socket_loop nd evs st = Inr (True, st')" "running (ls_conf st)"
  shows "Sig_Stop \<in> set evs"
  using assms
proof (induction evs arbitrary: st)
  case Nil
  then show ?case by (simp add: socket_loop.simps)
next
  case (Cons e evs)
  show ?case
  proof (cases e)
    case (Select_Ready fds new early)
    then obtain st1 where st1: "rfold (handle_fd nd new early) (filter (\<lambda>i. i \<in> set fds) [0..FD_SETSIZE - 1]) st = Inr st1"
      "socket_loop nd evs st1 = Inr (True, st')"
      using Cons.prems by (auto simp: socket_loop.simps [of _ "_ # _"])
    have "running (ls_conf st1)"
      by (rule rfold_invariant [OF st1(1), where P = "\<lambda>s. running (ls_conf s)"])
        (use Cons.prems(2) handle_fd_running in auto)
    with Cons.IH [OF st1(2)] show ?thesis by simp
  qed (use Cons in \<open>auto simp: socket_loop.simps [of _ "_ # _"]\<close>)
qed

text \<open>
  Neither logging nor rotating touches the background thread; only its own first step starts it.
\<close>

lemma logsqlite_rotate_thread:
  assumes "logsqlite_rotate t api s = Some (Inr (st, s'))"
  shows "bgthread s' = bgthread s"
  using assms
  by (auto simp: logsqlite_rotate_def db_close_def Let_def dest!: db_open_thread(2) split: if_splits sum.splits option.splits)

definition same_thread :: "('h, 'w) daemon \<Rightarrow> ('h, 'w) daemon \<Rightarrow> bool" where
  "same_thread d d' \<longleftrightarrow>
     engines d' = engines d \<and> engines_count d' = engines_count d \<and> bgthread (d_sqlite d') = bgthread (d_sqlite d)"

lemma engine_thread:
  "log_engine env msg e d = Inr d' \<Longrightarrow> same_thread d d'"
  "rotate_engine env e d = Inr d' \<Longrightarrow> same_thread d d'"
  by (cases e; auto simp: same_thread_def log_engine_def rotate_engine_def returning_def
      dest: logsqlite_log_keeps logsqlite_rotate_thread split: option.splits)+

lemma each_engine_thread:
  assumes "each_engine member f d = Inr d'" "\<And>e d d'. f e d = Inr d' \<Longrightarrow> same_thread d d'"
  shows "same_thread d d'"
  by (rule rfold_invariant [OF assms(1) [unfolded each_engine_def], where P = "same_thread d"])
    (use assms(2) in \<open>auto simp: same_thread_def split: option.splits\<close>)

lemma activity_thread:
  assumes "activity_step env a d = Inr d'"
  shows "table_full d \<Longrightarrow> table_full d'"
    and "b = Bg_None \<or> b = Bg_Created \<and> a \<noteq> Background \<Longrightarrow> bgthread (d_sqlite d) = b \<Longrightarrow> bgthread (d_sqlite d') = b"
proof -
  have "same_thread d d'" if "a \<noteq> Background"
    using assms that
    by (cases a) (auto simp: activity_step_def pdns_loggers_log_def signal_rotate_def pdns_loggers_rotate_def
        intro: each_engine_thread [OF _ engine_thread(1)] each_engine_thread [OF _ engine_thread(2)])
  moreover have "engines d' = engines d \<and> engines_count d' = engines_count d \<and>
      (bgthread (d_sqlite d) = Bg_None \<longrightarrow> d' = d)" if "a = Background"
    using assms that
    by (auto simp: activity_step_def background_step_def split: bg_thread.splits)
  ultimately show "table_full d \<Longrightarrow> table_full d'"
    and "b = Bg_None \<or> b = Bg_Created \<and> a \<noteq> Background \<Longrightarrow> bgthread (d_sqlite d) = b \<Longrightarrow> bgthread (d_sqlite d') = b"
    by (auto simp: same_thread_def table_full_def)
qed

lemma activities_thread:
  assumes "rfold (activity_step env) acts d = Inr d'"
  shows "table_full d \<Longrightarrow> table_full d'"
    and "b = Bg_None \<or> b = Bg_Created \<and> Background \<notin> set acts \<Longrightarrow> bgthread (d_sqlite d) = b \<Longrightarrow>
      bgthread (d_sqlite d') = b"
  using assms
proof (induction acts arbitrary: d)
  case (Cons a acts)
  {
    case 1
    then show ?case using Cons.IH(1) activity_thread(1) by fastforce
  next
    case 2
    then show ?case using Cons.IH(2) activity_thread(2) by fastforce
  }
qed auto

text \<open>A shutdown that returns has joined a background thread that had begun its loop.\<close>

lemma loggers_halt_joins:
  assumes "table_full d" "loggers_halt env d = Inr (st, d')"
  shows "bgthread (d_sqlite d) \<noteq> Bg_None" "bgthread (d_sqlite d) \<noteq> Bg_Created"
  using assms
  by (auto simp: loggers_halt_def each_engine_full stop_engine_def logsqlite_stop_def bg_thread_stop_def Let_def
      table_full_def)

lemma socket_start_net_ok: "fst (socket_start a conf) = PDNS_OK \<longleftrightarrow> net_ok a"
  by (auto simp: socket_start_def net_ok_def Let_def)

lemma socket_start_running: "socket_start a conf = (st, conf1, t) \<Longrightarrow> running conf1 = running conf"
  by (auto simp: socket_start_def Let_def split: if_splits)

lemma pdns_socket_run_exit:
  assumes "pdns_socket_run nd a evs conf = Inr (st, ls, ended)" "running conf"
  shows "st = PDNS_OK \<longleftrightarrow> net_ok a" "st = PDNS_OK \<Longrightarrow> ended \<Longrightarrow> Sig_Stop \<in> set evs"
proof -
  obtain st1 conf1 t where s: "socket_start a conf = (st1, conf1, t)" by (cases "socket_start a conf")
  then have "st1 = PDNS_OK \<longleftrightarrow> net_ok a" using socket_start_net_ok [of a conf] by simp
  with assms(1) s show "st = PDNS_OK \<longleftrightarrow> net_ok a"
    by (auto simp: pdns_socket_run_def socket_close_def split: if_splits)
  show "Sig_Stop \<in> set evs" if "st = PDNS_OK" "ended"
    using assms that s socket_start_running [OF s]
    by (auto simp: pdns_socket_run_def split: if_splits dest: socket_loop_ends)
qed

lemma serve_exit:
  assumes "serve env c d = Inr (out, d')" "table_full d"
  shows "out = Exit_Failure \<longleftrightarrow> \<not> net_ok (c_net c)"
    and "out = Exit_Success \<Longrightarrow> Sig_Stop \<in> set (c_loop c) \<and> bgthread (d_sqlite d) \<noteq> Bg_None \<and>
      (bgthread (d_sqlite d) = Bg_Created \<longrightarrow> Background \<in> set (c_acts c))"
proof -
  let ?d = "d\<lparr>d_globals := (d_globals d)\<lparr>running := True\<rparr>\<rparr>"
  obtain st ls ended where r: "pdns_socket_run (ndebug env) (c_net c) (c_loop c) (d_globals ?d) = Inr (st, ls, ended)"
    using assms(1) by (auto simp: serve_def Let_def)
  note run = pdns_socket_run_exit [OF r]
  show "out = Exit_Failure \<longleftrightarrow> \<not> net_ok (c_net c)"
    using assms(1) r run(1) by (auto simp: serve_def Let_def split: if_splits)
  assume "out = Exit_Success"
  then obtain d2 st' d3 where d2: "rfold (activity_step env) (c_acts c) (?d\<lparr>d_globals := ls_conf ls\<rparr>) = Inr d2"
    "loggers_halt env d2 = Inr (st', d3)" "st = PDNS_OK" ended
    using assms(1) r by (auto simp: serve_def Let_def split: if_splits)
  have "table_full d2" using activities_thread(1) [OF d2(1)] assms(2) by (simp add: table_full_def)
  note joined = loggers_halt_joins [OF this d2(2)]
  show "Sig_Stop \<in> set (c_loop c) \<and> bgthread (d_sqlite d) \<noteq> Bg_None \<and>
      (bgthread (d_sqlite d) = Bg_Created \<longrightarrow> Background \<in> set (c_acts c))"
    using run(2) d2(3,4) joined activities_thread(2) [OF d2(1), of Bg_None] activities_thread(2) [OF d2(1), of Bg_Created]
    by auto
qed

section \<open>The exit status\<close>

lemma main_with_settings:
  fixes env :: "('h, 'w) surroundings"
  assumes "settings_of env dflt argv = Some (file, g)"
  shows "\<exists>d. table_full d \<and> fp (d_logfile d) \<noteq> Fp_Closed \<and>
    bgthread (d_sqlite d) = (if sqlite_on file (logsqlite_static w :: ('h, 'w) logsqlite) then Bg_Created else Bg_None) \<and>
    main env dflt argv c (daemon_start dk w) =
      (if foreground g then serve env c d
       else if c_pid c \<noteq> 0 then Inr (Exit_Success, d)
       else if c_sid c < 0 then Inr (Exit_Failure, d)
       else serve env c (child_of_fork d))"
proof -
  obtain g0 where cli: "parse_cli globals_zero argv = (PDNS_OK, g0)"
    using assms by (auto simp: settings_of_def split: prod.splits if_splits)
  define f where "f = (if zstr (config_file g0) then dflt else the (config_file g0))"
  then have conf: "(if zstr (config_file g0) then g0\<lparr>config_file := Some dflt\<rparr> else g0) = g0\<lparr>config_file := Some f\<rparr>"
    by (cases "config_file g0") auto
  have rd: "f \<noteq> []" "readable env f = Some file" "ini_syntax_error file = 0"
    "g = fold (\<lambda>(n, v). set_global n v) (section_settings ''globals'' file) (g0\<lparr>config_file := Some f\<rparr>)"
    using assms cli by (auto simp: settings_of_def f_def Let_def split: if_splits option.splits)
  have cf: "config_file g = Some f" using rd(4) by simp
  have parse: "parse_config_file (readable env) (Some f) (g0\<lparr>config_file := Some f\<rparr>) = Some (PDNS_OK, g)"
    using rd by (simp add: parse_config_file_spec)
  let ?d = "(daemon_start dk w)\<lparr>d_globals := g\<rparr>"
  have st: "engines_count ?d = 0" "d_sqlite ?d = logsqlite_static w" "bgthread (logsqlite_static w :: ('h, 'w) logsqlite) = Bg_None" "fp (d_logfile ?d) = Fp_Null"
    by (simp_all add: daemon_start_def logsqlite_static_def logfile_static_def)
  obtain d where d: "loggers_initialize env (Some f) ?d = Inr (PDNS_OK, d)" "table_full d" "fp (d_logfile d) \<noteq> Fp_Closed"
    "bgthread (d_sqlite d) = (if sqlite_on file (logsqlite_static w :: ('h, 'w) logsqlite) then Bg_Created else Bg_None)"
    using engines_start [OF rd(2,1,3) st(1,4)] unfolding st by metis
  have "main env dflt argv c (daemon_start dk w) =
      (if foreground g then serve env c d
       else if c_pid c \<noteq> 0 then Inr (Exit_Success, d)
       else if c_sid c < 0 then Inr (Exit_Failure, d)
       else serve env c (child_of_fork d))"
    unfolding main_def cli by (simp add: conf parse cf d(1) returning_def fork_and_close_parent_def)
  with d show ?thesis by blast
qed


section \<open>A run that ends well\<close>

definition stop_doc :: "(string \<times> (string \<times> string) list) list" where
  "stop_doc = [(''globals'', [(''foreground'', ''1'')]), (''sqlite3'', [(''dbfile'', ''q.db'')])]"

definition stop_env :: "(nat, mini_db) surroundings" where
  "stop_env = example_env\<lparr>readable := [''pdns.ini'' \<mapsto> print_ini stop_doc]\<rparr>"

definition stop_course :: course where
  "stop_course =
     \<lparr>c_pid = 0, c_sid = 0,
      c_net = \<lparr>na_socket = 3, na_reuseaddr = 0, na_bind = 0, na_getfl = 2, na_setfl = 0, na_listen = 0\<rparr>,
      c_loop = [Select_Failed, Sig_Stop], c_acts = [Background]\<rparr>"

lemma stop_doc_ok: "doc_ok stop_doc"
  by (simp add: stop_doc_def doc_ok_def section_ok_def MAX_SECTION_def pair_ok_def plain_text_def stripped_def isspace_def
      find_chars_or_comment_def INI_MAX_LINE_def)

lemma stop_settings:
  "\<exists>g. settings_of stop_env ''pdns.ini'' [''pdns-logger''] = Some (print_ini stop_doc, g) \<and> foreground g"
  "sqlite_on (print_ini stop_doc) (logsqlite_static w :: ('h, 'w) logsqlite)"
proof -
  note printed = print_ini_settings [OF stop_doc_ok]
  have one: "atoi ''1'' = 1"
    by (simp add: atoi_def strtol10_def isspace_def isdigit_def Let_def signed_take_bit_int_eq_self)
  show "\<exists>g. settings_of stop_env ''pdns.ini'' [''pdns-logger''] = Some (print_ini stop_doc, g) \<and> foreground g"
    by (simp add: settings_of_def stop_env_def printed parse_cli_def globals_zero_def) (simp add: stop_doc_def set_global_def one)
  show "sqlite_on (print_ini stop_doc) (logsqlite_static w :: ('h, 'w) logsqlite)"
    by (simp add: sqlite_on_def printed) (simp add: stop_doc_def set_sqlite_def logsqlite_static_def)
qed

lemma stop_runs:
  assumes "table_full d" "fp (d_logfile d) \<noteq> Fp_Closed" "bgthread (d_sqlite d) = Bg_Created"
  shows "\<exists>d'. serve stop_env stop_course d = Inr (Exit_Success, d')"
proof -
  let ?d = "d\<lparr>d_globals := (d_globals d)\<lparr>running := True\<rparr>\<rparr>"
  obtain ls where ls: "pdns_socket_run (ndebug stop_env) (c_net stop_course) (c_loop stop_course) (d_globals ?d) = Inr (PDNS_OK, ls, True)"
    by (simp add: stop_course_def pdns_socket_run_def socket_start_def socket_close_def Let_def socket_loop.simps)
  let ?s = "bg_thread_begin (d_sqlite d)"
  let ?d2 = "?d\<lparr>d_globals := ls_conf ls, d_sqlite := ?s\<rparr>"
  have acts: "rfold (activity_step stop_env) (c_acts stop_course) (?d\<lparr>d_globals := ls_conf ls\<rparr>) = Inr ?d2"
    using assms(3) by (simp add: stop_course_def activity_step_def background_step_def)
  obtain lf where lf: "logfile_stop (d_logfile d) = Inr (PDNS_OK, lf)"
    using assms(2) by (cases "fp (d_logfile d)") (simp_all add: logfile_stop_def fclose_def fflush_def Let_def)
  have "\<exists>d3. loggers_halt stop_env ?d2 = Inr (PDNS_OK, d3)"
    using assms lf
    by (simp add: loggers_halt_def each_engine_full table_full_def stop_engine_def logsqlite_stop_def bg_thread_stop_def
        bg_thread_begin_def Let_def split: prod.splits)
  then show ?thesis using ls acts by (auto simp: serve_def Let_def)
qed


end
