(* ===== verification/Threads.thy ===== *)
theory Threads
  imports Prelude
begin

text \<open>
  Calls as one step and calls as many: what the theories that cut a call into the statements between
  which other threads can run have in common with those that take it as a whole.
\<close>

text \<open>A sequence of calls, each of which may not return, may stop the program, or leave a new state.\<close>

fun call_all :: "('x \<Rightarrow> 's \<Rightarrow> 's res option) \<Rightarrow> 'x list \<Rightarrow> 's \<Rightarrow> 's res option" where
  "call_all call [] s = Some (Inr s)"
| "call_all call (x # xs) s =
     Option.bind (call x s) (\<lambda>r. case r of Inl e \<Rightarrow> Some (Inl e) | Inr s' \<Rightarrow> call_all call xs s')"

lemma call_all_Cons:
  assumes "call_all call (x # xs) s = Some (Inr s')"
  obtains s1 where "call x s = Some (Inr s1)" "call_all call xs s1 = Some (Inr s')"
proof -
  from assms obtain r where r: "call x s = Some r"
    "(case r of Inl e \<Rightarrow> Some (Inl e) | Inr s1 \<Rightarrow> call_all call xs s1) = Some (Inr s')"
    by (auto simp: bind_eq_Some_conv)
  with that show thesis by (cases r) auto
qed

text \<open>
  The contract of an engine whose calls are cut into steps: \<open>rest s g\<close> is the state of all threads
  when none is inside the engine and its state is \<open>s\<close>; every call that returns from a state with
  \<open>ok\<close> is a run of steps between two such states.
\<close>

locale threaded =
  fixes step :: "'c \<Rightarrow> 'c \<Rightarrow> bool" and rest :: "'s \<Rightarrow> 'g \<Rightarrow> 'c"
    and call :: "'x \<Rightarrow> 's \<Rightarrow> 's res option" and ok :: "'s \<Rightarrow> bool"
  assumes call_run: "call x s = Some (Inr s') \<Longrightarrow> ok s \<Longrightarrow> ok s' \<and> (\<exists>g'. step\<^sup>*\<^sup>* (rest s g) (rest s' g'))"
begin

lemma calls_run:
  assumes "call_all call xs s = Some (Inr s')" "ok s"
  shows "\<exists>g'. step\<^sup>*\<^sup>* (rest s g) (rest s' g')"
  using assms
proof (induction xs arbitrary: s g)
  case (Cons x xs)
  obtain s1 where s1: "call x s = Some (Inr s1)" "call_all call xs s1 = Some (Inr s')"
    using Cons.prems(1) by (rule call_all_Cons)
  then obtain g1 where "ok s1" "step\<^sup>*\<^sup>* (rest s g) (rest s1 g1)" using call_run Cons.prems(2) by blast
  with Cons.IH [OF s1(2), of g1] show ?case by (meson rtranclp_trans)
qed auto

end

end
