(* ===== verification/Interleaving.thy ===== *)
theory Interleaving
  imports Safety Threads
begin

text \<open>
  Rotation, shutdown and the background thread of \<^verbatim>\<open>src/pdns-logger-sqlite.c\<close>, statement by
  statement. Elsewhere a round of the background thread and a rotation are single steps; here they
  are cut where the code lets the other threads in, to see what the queue's lock protects and what
  it does not. Three kinds of threads share the state: those that log messages, the background
  thread, and the one that handles the signals.
\<close>

section \<open>Threads\<close>

text \<open>
  The background thread is at the head of its loop, holds a statement it has popped and not yet
  executed, or has returned. The signal-handling thread is outside the engine, between the calls of
  \<^verbatim>\<open>logsqlite_rotate\<close>, waiting in \<^verbatim>\<open>pthread_join\<close>, or done with \<^verbatim>\<open>logsqlite_stop\<close>.
\<close>

datatype bg_at = Bg_Head | Bg_Holds string | Bg_Returned

datatype sig_at = Sig_Idle | Rot_Locked | Rot_Closed | Rot_Opened | Stop_Joining | Stop_Over

text \<open>
  \<open>th_closed\<close>: \<^verbatim>\<open>db\<close> points to a connection that has been closed. \<open>th_early\<close>: when the last rotation
  locked the queue, the background thread already held a statement. Neither influences a step.
\<close>

record ('h, 'w) threads =
  th_sq :: "('h, 'w) logsqlite"
  th_bg :: bg_at
  th_sig :: sig_at
  th_closed :: bool
  th_early :: bool

definition holds :: "('h, 'w) threads \<Rightarrow> bool" where
  "holds th = (case th_bg th of Bg_Holds q \<Rightarrow> True | _ \<Rightarrow> False)"

text \<open>
  The loop head with the pop: \<^verbatim>\<open>while (bgrunning) { sql = fifo_pop_item(fifo); if (sql != NULL)\<close>.
\<close>

definition bg_take :: "nat \<Rightarrow> ('h, 'w) threads \<Rightarrow> ('h, 'w) threads res" where
  "bg_take u th =
     (if \<not> bgrunning (th_sq th) then Inr (th\<lparr>th_bg := Bg_Returned\<rparr>)
      else rbind (fifo_pop_item u (sq_fifo (th_sq th))) (\<lambda>(f, sql).
             Inr (th\<lparr>th_sq := (th_sq th)\<lparr>sq_fifo := f\<rparr>,
                     th_bg := (case sql of None \<Rightarrow> Bg_Head | Some q \<Rightarrow> Bg_Holds q)\<rparr>)))"

text \<open>The calls of \<^verbatim>\<open>logsqlite_rotate\<close>, one after the other, and the end of \<^verbatim>\<open>logsqlite_stop\<close>.\<close>

definition rot_lock :: "nat \<Rightarrow> ('h, 'w) threads \<Rightarrow> ('h, 'w) threads res" where
  "rot_lock t th =
     (if db (th_sq th) = None then Inr th
      else rbind (fifo_lock t (sq_fifo (th_sq th))) (\<lambda>f.
             Inr (th\<lparr>th_sq := (th_sq th)\<lparr>sq_fifo := f\<rparr>, th_sig := Rot_Locked, th_early := holds th\<rparr>)))"

definition rot_close :: "('h, 'w) sqlite3_api \<Rightarrow> ('h, 'w) threads \<Rightarrow> ('h, 'w) threads" where
  "rot_close api th = th\<lparr>th_sq := snd (db_close api (th_sq th)), th_sig := Rot_Closed, th_closed := True\<rparr>"

definition rot_open :: "('h, 'w) sqlite3_api \<Rightarrow> ('h, 'w) threads \<Rightarrow> ('h, 'w) threads option" where
  "rot_open api th =
     map_option (\<lambda>(st, s). th\<lparr>th_sq := s, th_sig := Rot_Opened, th_closed := False\<rparr>)
       (db_open api (dbfile (th_sq th)) (th_sq th))"

definition rot_unlock :: "nat \<Rightarrow> ('h, 'w) threads \<Rightarrow> ('h, 'w) threads" where
  "rot_unlock t th =
     th\<lparr>th_sq := (th_sq th)\<lparr>sq_fifo := fifo_unlock t (sq_fifo (th_sq th))\<rparr>, th_sig := Sig_Idle\<rparr>"

definition stop_begin :: "('h, 'w) threads \<Rightarrow> ('h, 'w) threads" where
  "stop_begin th = th\<lparr>th_sq := (th_sq th)\<lparr>bgrunning := False\<rparr>, th_sig := Stop_Joining\<rparr>"

definition stop_joined :: "('h, 'w) sqlite3_api \<Rightarrow> ('h, 'w) threads \<Rightarrow> ('h, 'w) threads" where
  "stop_joined api th =
     th\<lparr>th_sq := snd (db_close api ((th_sq th)\<lparr>bgthread := Bg_Done\<rparr>)), th_sig := Stop_Over, th_closed := True\<rparr>"

text \<open>
  The steps. \<open>t\<close> handles the signals, \<open>u\<close> is the background thread, \<open>v\<close> logs messages. A thread that
  would block has no step. The background thread has no step either when it holds a statement and
  the connection is closed: executing it would be undefined.
\<close>

inductive th_step ::
  "('h, 'w) sqlite3_api \<Rightarrow> bool \<Rightarrow> nat \<Rightarrow> nat \<Rightarrow> nat \<Rightarrow> ('h, 'w) threads \<Rightarrow> ('h, 'w) threads \<Rightarrow> bool"
  for api nd t u v where
  produce: "push_row api nd alloc v w (th_sq th) = Inr s \<Longrightarrow> th_step api nd t u v th (th\<lparr>th_sq := s\<rparr>)"
| take: "th_bg th = Bg_Head \<Longrightarrow> bg_take u th = Inr th' \<Longrightarrow> th_step api nd t u v th th'"
| execute: "th_bg th = Bg_Holds q \<Longrightarrow> \<not> th_closed th \<Longrightarrow> db_exec DEPTH api q (th_sq th) = Some (st, s) \<Longrightarrow>
    th_step api nd t u v th (th\<lparr>th_sq := s, th_bg := Bg_Head\<rparr>)"
| lock: "th_sig th = Sig_Idle \<Longrightarrow> rot_lock t th = Inr th' \<Longrightarrow> th_step api nd t u v th th'"
| close: "th_sig th = Rot_Locked \<Longrightarrow> th_step api nd t u v th (rot_close api th)"
| reopen: "th_sig th = Rot_Closed \<Longrightarrow> rot_open api th = Some th' \<Longrightarrow> th_step api nd t u v th th'"
| unlock: "th_sig th = Rot_Opened \<Longrightarrow> th_step api nd t u v th (rot_unlock t th)"
| stop: "th_sig th = Sig_Idle \<Longrightarrow> th_step api nd t u v th (stop_begin th)"
| join: "th_sig th = Stop_Joining \<Longrightarrow> th_bg th = Bg_Returned \<Longrightarrow>
    th_step api nd t u v th (stop_joined api th)"

text \<open>No thread is inside the engine.\<close>

definition quiet :: "('h, 'w) logsqlite \<Rightarrow> bool \<Rightarrow> ('h, 'w) threads" where
  "quiet s e = \<lparr>th_sq = s, th_bg = Bg_Head, th_sig = Sig_Idle, th_closed = False, th_early = e\<rparr>"

inductive th_reach ::
  "('h, 'w) sqlite3_api \<Rightarrow> bool \<Rightarrow> nat \<Rightarrow> nat \<Rightarrow> nat \<Rightarrow> ('h, 'w) logsqlite \<Rightarrow> ('h, 'w) threads \<Rightarrow> bool"
  for api nd t u v s where
  start: "th_reach api nd t u v s (quiet s False)"
| step: "th_reach api nd t u v s th \<Longrightarrow> th_step api nd t u v th th' \<Longrightarrow> th_reach api nd t u v s th'"

section \<open>What the lock protects\<close>

definition rotating :: "('h, 'w) threads \<Rightarrow> bool" where
  "rotating th \<longleftrightarrow> th_sig th \<in> {Rot_Locked, Rot_Closed, Rot_Opened}"

definition th_inv :: "nat \<Rightarrow> ('h, 'w) threads \<Rightarrow> bool" where
  "th_inv t th \<longleftrightarrow>
     (\<exists>f. fifo_wf f \<and> sq_fifo (th_sq th) = Some (if rotating th then locked_by t f else f)) \<and>
     (th_closed th \<longleftrightarrow> th_sig th \<in> {Rot_Closed, Stop_Over}) \<and>
     (th_sig th = Stop_Over \<longrightarrow> th_bg th = Bg_Returned) \<and>
     (rotating th \<longrightarrow> holds th \<longrightarrow> th_early th)"

lemma push_row_inv:
  assumes "th_inv t th" "v \<noteq> t" "push_row api nd alloc v w (th_sq th) = Inr s"
  shows "th_inv t (th\<lparr>th_sq := s\<rparr>)"
proof -
  obtain f where f: "fifo_wf f" "sq_fifo (th_sq th) = Some (if rotating th then locked_by t f else f)"
    using assms(1) by (auto simp: th_inv_def)
  obtain q st where q: "fifo_push_item nd alloc v (sq_fifo (th_sq th)) (prepare_sql api w) = Inr (q, st)"
    "s = (th_sq th)\<lparr>sq_fifo := q\<rparr>"
    using assms(3) by (auto simp: push_row_def)
  have "\<exists>f'. fifo_wf f' \<and> q = Some (if rotating th then locked_by t f' else f')"
  proof (cases "rotating th")
    case True
    with f q push_locked [OF f(1) assms(2)] show ?thesis by auto
  next
    case False
    with f q fifo_push_item_safe [of "sq_fifo (th_sq th)" nd alloc v "prepare_sql api w"]
    have "queue_ok q" by (auto simp: queue_ok_def fifo_q_wf_def)
    moreover have "q \<noteq> None" using q(1) f(2) False push_keeps_queue by auto
    ultimately show ?thesis using False by (auto simp: queue_ok_def fifo_q_wf_def)
  qed
  then show ?thesis using assms(1) q(2) by (simp add: th_inv_def rotating_def holds_def)
qed

lemma bg_take_inv:
  assumes "th_inv t th" "u \<noteq> t" "th_bg th = Bg_Head" "bg_take u th = Inr th'"
  shows "th_inv t th'"
proof (cases "bgrunning (th_sq th)")
  case False
  then have "th' = th\<lparr>th_bg := Bg_Returned\<rparr>" using assms(4) by (simp add: bg_take_def)
  then show ?thesis using assms(1) by (simp add: th_inv_def rotating_def holds_def)
next
  case True
  obtain f where f: "fifo_wf f" "sq_fifo (th_sq th) = Some (if rotating th then locked_by t f else f)"
    using assms(1) by (auto simp: th_inv_def)
  then have nr: "\<not> rotating th" using True assms(4) pop_locked [OF f(1) assms(2)] by (auto simp: bg_take_def)
  then have "th_sig th \<noteq> Stop_Over" using assms(1,3) by (auto simp: th_inv_def)
  moreover obtain f' where "fifo_wf f'" "fifo_pop_item u (Some f) = Inr (Some f', fifo_content f)"
    using fifo_pop_item_wf [OF f(1)] fifo_wf_pop(1) [OF f(1)] by auto
  ultimately show ?thesis
    using assms(1,4) nr f True by (auto simp: bg_take_def th_inv_def rotating_def)
qed

lemma rot_lock_inv:
  assumes "th_inv t th" "th_sig th = Sig_Idle" "rot_lock t th = Inr th'"
  shows "th_inv t th'"
proof (cases "db (th_sq th)")
  case None
  then show ?thesis using assms by (simp add: rot_lock_def)
next
  case (Some h)
  obtain f where "fifo_wf f" "sq_fifo (th_sq th) = Some f"
    using assms(1,2) by (auto simp: th_inv_def rotating_def)
  then show ?thesis
    using assms Some by (auto simp: rot_lock_def lock_wf th_inv_def rotating_def holds_def)
qed

lemma rot_open_inv:
  assumes "th_inv t th" "th_sig th = Rot_Closed" "rot_open api th = Some th'"
  shows "th_inv t th'"
proof -
  obtain st s where s: "db_open api (dbfile (th_sq th)) (th_sq th) = Some (st, s)" "sq_fifo s = sq_fifo (th_sq th)"
    using db_open_total by blast
  then have "th' = th\<lparr>th_sq := s, th_sig := Rot_Opened, th_closed := False\<rparr>"
    using assms(3) by (simp add: rot_open_def)
  then show ?thesis using assms(1,2) s(2) by (auto simp: th_inv_def rotating_def holds_def)
qed

lemma rot_unlock_inv:
  assumes "th_inv t th" "th_sig th = Rot_Opened"
  shows "th_inv t (rot_unlock t th)"
proof -
  obtain f where "fifo_wf f" "sq_fifo (th_sq th) = Some (locked_by t f)"
    using assms by (auto simp: th_inv_def rotating_def)
  then show ?thesis
    using assms by (auto simp: rot_unlock_def unlock_locked th_inv_def rotating_def)
qed

lemma th_step_inv:
  assumes "th_step api nd t u v th th'" "th_inv t th" "u \<noteq> t" "v \<noteq> t"
  shows "th_inv t th'"
  using assms
proof (induction rule: th_step.induct)
  case (execute th q st s)
  then have "sq_fifo s = sq_fifo (th_sq th)" by (auto simp: db_exec_depth)
  with execute show ?case by (auto simp: th_inv_def rotating_def holds_def)
next
  case (close th)
  then show ?case by (auto simp: rot_close_def db_close_def th_inv_def rotating_def holds_def)
next
  case (stop th)
  then show ?case by (auto simp: stop_begin_def th_inv_def rotating_def holds_def)
next
  case (join th)
  then show ?case by (auto simp: stop_joined_def db_close_def th_inv_def rotating_def holds_def)
qed (blast intro: push_row_inv bg_take_inv rot_lock_inv rot_open_inv rot_unlock_inv)+

lemma th_reach_inv:
  assumes "th_reach api nd t u v s th" "sq_ready s" "u \<noteq> t" "v \<noteq> t"
  shows "th_inv t th"
  using assms
proof (induction rule: th_reach.induct)
  case start
  then show ?case by (auto simp: th_inv_def quiet_def rotating_def sq_ready_def fifo_q_wf_def split: option.splits)
qed (blast intro: th_step_inv)

section \<open>What it does not protect\<close>

lemma th_reach_from: "(th_step api nd t u v)\<^sup>*\<^sup>* th th' \<Longrightarrow> th_reach api nd t u v s th \<Longrightarrow> th_reach api nd t u v s th'"
  by (induction rule: rtranclp_induct) (auto intro: th_reach.intros)

lemma th_reach_steps: "(th_step api nd t u v)\<^sup>*\<^sup>* (quiet s False) th \<Longrightarrow> th_reach api nd t u v s th"
  using th_reach_from th_reach.start by blast

lemma closing_run:
  assumes "sq_ready s" "fifo_q_content (sq_fifo s) = Some q"
  shows "\<exists>th. th_reach api nd t u v s th \<and> th_bg th = Bg_Holds q \<and> th_closed th"
proof -
  obtain f where f: "sq_fifo s = Some f" "fifo_wf f" "fifo_content f = Some q" "bgrunning s" "db s \<noteq> None"
    using assms by (auto simp: sq_ready_def fifo_q_wf_def fifo_q_content_def split: option.splits)
  obtain f' where f': "fifo_wf f'" "fifo_pop_item u (Some f) = Inr (Some f', Some q)"
    using fifo_pop_item_wf [OF f(2)] fifo_wf_pop(1) [OF f(2)] f(3) by auto
  let ?a = "(quiet s False)\<lparr>th_sq := s\<lparr>sq_fifo := Some f'\<rparr>, th_bg := Bg_Holds q\<rparr>"
  let ?b = "?a\<lparr>th_sq := s\<lparr>sq_fifo := Some (locked_by t f')\<rparr>, th_sig := Rot_Locked, th_early := True\<rparr>"
  have "th_step api nd t u v (quiet s False) ?a"
    by (rule th_step.take) (use f f' in \<open>simp_all add: quiet_def bg_take_def\<close>)
  moreover have "th_step api nd t u v ?a ?b"
    by (rule th_step.lock) (use f(5) f'(1) in \<open>simp_all add: quiet_def rot_lock_def lock_wf holds_def\<close>)
  moreover have "th_step api nd t u v ?b (rot_close api ?b)"
    by (rule th_step.close) simp
  ultimately have "th_reach api nd t u v s (rot_close api ?b)"
    by (meson th_reach.intros)
  moreover have "th_bg (rot_close api ?b) = Bg_Holds q" "th_closed (rot_close api ?b)"
    by (simp_all add: rot_close_def)
  ultimately show ?thesis by blast
qed

text \<open>A queue that holds one statement, on the small SQLite.\<close>

definition mini_queued :: "(nat, mini_db) logsqlite" where
  "mini_queued = mini_state\<lparr>sq_fifo :=
     Some ((fifo_put ''x'' fifo_empty)\<lparr>fifo_head := Some 0, fifo_tail := Some 0\<rparr>)\<rparr>"

lemma mini_queued_ok: "sq_ready mini_queued" "fifo_q_content (sq_fifo mini_queued) = Some ''x''"
proof -
  have "fifo_brk (fifo_empty :: string fifo) = 0" by (simp add: fifo_empty_def)
  then show "sq_ready mini_queued" "fifo_q_content (sq_fifo mini_queued) = Some ''x''"
    using fifo_wf_put_empty [OF fifo_wf_empty(1), of "''x''"]
    by (simp_all add: sq_ready_def mini_queued_def mini_state_def fifo_q_defs)
qed

text \<open>
  C13. Rotation can close the connection under a statement. Whenever a statement is queued, the
  background thread may pop it, and before it calls \<^verbatim>\<open>db_exec\<close> a rotation may lock the queue and
  close the connection: the lock is held, and nothing keeps the background thread from executing the
  statement on the closed connection.
\<close>

theorem rotation_closes_under_statement:
  assumes "sq_ready s" "fifo_q_content (sq_fifo s) = Some q"
  shows "\<exists>th. th_reach api nd t u v s th \<and> th_bg th = Bg_Holds q \<and> th_closed th"
  using closing_run [OF assms] .

theorem rotation_closes_under_statement_witness:
  "\<exists>th. th_reach mini_sqlite True 1 2 3 mini_queued th \<and> th_bg th = Bg_Holds ''x'' \<and> th_closed th"
  by (rule rotation_closes_under_statement [OF mini_queued_ok])



section \<open>Atomic steps are uninterrupted runs\<close>

lemma quiet_fields [simp]:
  "th_sq (quiet s e) = s" "th_bg (quiet s e) = Bg_Head" "th_sig (quiet s e) = Sig_Idle"
  "th_closed (quiet s e) = False" "th_early (quiet s e) = e"
  by (simp_all add: quiet_def)

lemma round_run:
  assumes "bg_thread_round u api s = Some (Inr s')" "bgrunning s"
  shows "(th_step api nd t u v)\<^sup>*\<^sup>* (quiet s e) (quiet s' e)"
proof -
  obtain f sql where p: "fifo_pop_item u (sq_fifo s) = Inr (f, sql)"
    using assms by (auto simp: bg_thread_round_def split: sum.splits)
  show ?thesis
  proof (cases sql)
    case None
    with p assms have "s' = s\<lparr>sq_fifo := f\<rparr>" by (simp add: bg_thread_round_def)
    moreover have "th_step api nd t u v (quiet s e) (quiet (s\<lparr>sq_fifo := f\<rparr>) e)"
      by (rule th_step.take) (use p None assms(2) in \<open>simp_all add: bg_take_def quiet_def\<close>)
    ultimately show ?thesis by blast
  next
    case (Some q)
    with p assms obtain st where ex: "db_exec DEPTH api q (s\<lparr>sq_fifo := f\<rparr>) = Some (st, s')"
      by (auto simp: bg_thread_round_def)
    let ?a = "(quiet (s\<lparr>sq_fifo := f\<rparr>) e)\<lparr>th_bg := Bg_Holds q\<rparr>"
    have "th_step api nd t u v (quiet s e) ?a"
      by (rule th_step.take) (use p Some assms(2) in \<open>simp_all add: bg_take_def quiet_def\<close>)
    moreover have "th_step api nd t u v ?a (?a\<lparr>th_sq := s', th_bg := Bg_Head\<rparr>)"
      by (rule th_step.execute) (use ex in simp_all)
    moreover have "?a\<lparr>th_sq := s', th_bg := Bg_Head\<rparr> = quiet s' e" by (simp add: quiet_def)
    ultimately show ?thesis by (metis r_into_rtranclp rtranclp.rtrancl_into_rtrancl)
  qed
qed

lemma rotate_run:
  assumes "logsqlite_rotate t api s = Some (Inr (st, s'))" "db s \<noteq> None"
  shows "(th_step api nd t u v)\<^sup>*\<^sup>* (quiet s e) (quiet s' False)"
proof -
  obtain f where f: "fifo_lock t (sq_fifo s) = Inr f"
    using assms by (auto simp: logsqlite_rotate_def split: sum.splits)
  let ?s1 = "s\<lparr>sq_fifo := f\<rparr>"
  let ?s2 = "snd (db_close api ?s1)"
  obtain st' s3 where o: "db_open api (dbfile ?s2) ?s2 = Some (st', s3)" using db_open_total by blast
  then have s': "s' = s3\<lparr>sq_fifo := fifo_unlock t (sq_fifo s3)\<rparr>"
    using assms f by (simp add: logsqlite_rotate_def Let_def)
  let ?a = "(quiet ?s1 False)\<lparr>th_sig := Rot_Locked\<rparr>"
  let ?b = "(quiet s3 False)\<lparr>th_sig := Rot_Opened\<rparr>"
  have "th_step api nd t u v (quiet s e) ?a"
    by (rule th_step.lock) (use f assms(2) in \<open>simp_all add: rot_lock_def quiet_def holds_def\<close>)
  moreover have "th_step api nd t u v ?a (rot_close api ?a)" by (rule th_step.close) simp
  moreover have "th_step api nd t u v (rot_close api ?a) ?b"
    by (rule th_step.reopen) (use o in \<open>simp_all add: rot_close_def rot_open_def quiet_def\<close>)
  moreover have "th_step api nd t u v ?b (rot_unlock t ?b)" by (rule th_step.unlock) simp
  moreover have "rot_unlock t ?b = quiet s' False" by (simp add: rot_unlock_def quiet_def s')
  ultimately show ?thesis
    by (metis r_into_rtranclp rtranclp.rtrancl_into_rtrancl)
qed

lemma stop_run:
  assumes "logsqlite_stop api s = Inr (st, s')"
  shows "\<exists>th. (th_step api nd t u v)\<^sup>*\<^sup>* (quiet s e) th \<and> th_sig th = Stop_Over \<and> th_sq th = s'"
proof -
  have s': "s' = snd (db_close api (s\<lparr>bgrunning := False, bgthread := Bg_Done\<rparr>))"
    using assms by (auto simp: logsqlite_stop_def bg_thread_stop_def db_close_def Let_def split: bg_thread.splits)
  let ?a = "stop_begin (quiet s e)"
  let ?b = "?a\<lparr>th_bg := Bg_Returned\<rparr>"
  have "th_step api nd t u v (quiet s e) ?a" by (rule th_step.stop) simp
  moreover have "th_step api nd t u v ?a ?b"
    by (rule th_step.take) (simp_all add: stop_begin_def bg_take_def)
  moreover have "th_step api nd t u v ?b (stop_joined api ?b)"
    by (rule th_step.join) (simp_all add: stop_begin_def)
  ultimately have "(th_step api nd t u v)\<^sup>*\<^sup>* (quiet s e) (stop_joined api ?b)"
    by (metis r_into_rtranclp rtranclp.rtrancl_into_rtrancl)
  moreover have "th_sq (stop_joined api ?b) = s'"
    by (simp add: stop_joined_def stop_begin_def s')
  ultimately show ?thesis by (auto simp: stop_joined_def)
qed

text \<open>The engine as the other theories see it: pushes, rounds and rotations, each without interruption.\<close>

datatype engine_op = Op_Push sql_row | Op_Round | Op_Rotate

definition engine_op_step ::
  "('h, 'w) sqlite3_api \<Rightarrow> bool \<Rightarrow> nat \<Rightarrow> nat \<Rightarrow> nat \<Rightarrow> engine_op \<Rightarrow> ('h, 'w) logsqlite \<Rightarrow> ('h, 'w) logsqlite res option" where
  "engine_op_step api nd t u v x s =
     (case x of
        Op_Push w \<Rightarrow> Some (push_row api nd True v w s)
      | Op_Round \<Rightarrow> bg_thread_round u api s
      | Op_Rotate \<Rightarrow> map_option (\<lambda>r. rbind r (\<lambda>(st, s'). Inr s')) (logsqlite_rotate t api s))"

lemma engine_op_run:
  assumes "engine_op_step api nd t u v x s = Some (Inr s')" "bgrunning s"
  shows "bgrunning s' \<and> (\<exists>e'. (th_step api nd t u v)\<^sup>*\<^sup>* (quiet s e) (quiet s' e'))"
proof (cases x)
  case (Op_Push w)
  then have p: "push_row api nd True v w s = Inr s'" using assms(1) by (simp add: engine_op_step_def)
  then have "th_step api nd t u v (quiet s e) ((quiet s e)\<lparr>th_sq := s'\<rparr>)" by (intro th_step.produce) simp
  moreover have "(quiet s e)\<lparr>th_sq := s'\<rparr> = quiet s' e" by (simp add: quiet_def)
  moreover have "bgrunning s' = bgrunning s" using p by (auto simp: push_row_def)
  ultimately show ?thesis using assms(2) by auto
next
  case Op_Round
  then have r: "bg_thread_round u api s = Some (Inr s')" using assms(1) by (simp add: engine_op_step_def)
  then have "bgrunning s' = bgrunning s"
    using assms(2) by (auto simp: bg_thread_round_def db_exec_depth split: sum.splits option.splits)
  then show ?thesis using round_run [OF r assms(2)] assms(2) by blast
next
  case Op_Rotate
  then obtain st where r: "logsqlite_rotate t api s = Some (Inr (st, s'))"
    using assms(1) by (auto simp: engine_op_step_def)
  show ?thesis
  proof (cases "db s = None")
    case True
    with r assms(2) show ?thesis by (auto simp: logsqlite_rotate_def)
  next
    case False
    then have "bgrunning s' = bgrunning s"
      using r by (auto simp: logsqlite_rotate_def db_close_def Let_def dest!: db_open_thread(1) split: sum.splits)
    with rotate_run [OF r False] assms(2) show ?thesis by blast
  qed
qed

interpretation sqlite_threads: threaded "th_step api nd t u v" quiet "engine_op_step api nd t u v" bgrunning
  by unfold_locales (rule engine_op_run)



section \<open>Shutdown\<close>

text \<open>From the stop signal on the flag stays down.\<close>

lemma stopping_flag:
  assumes "th_reach api nd t u v s th" "th_sig th \<in> {Stop_Joining, Stop_Over}"
  shows "\<not> bgrunning (th_sq th)"
  using assms
proof (induction rule: th_reach.induct)
  case (step th th')
  from step.hyps(2) step.prems step.IH show ?case
    by (cases rule: th_step.cases)
      (auto simp: push_row_def bg_take_def db_exec_depth rot_lock_def rot_close_def rot_open_def rot_unlock_def stop_begin_def
        stop_joined_def db_close_def split: if_splits)
qed (simp add: quiet_def)

text \<open>Steps of the background thread and of the signal thread that are still to come after the stop signal.\<close>

definition stop_distance :: "('h, 'w) threads \<Rightarrow> nat" where
  "stop_distance th =
     (if th_sig th = Stop_Over then 0
      else case th_bg th of Bg_Holds q \<Rightarrow> 3 | Bg_Head \<Rightarrow> 2 | Bg_Returned \<Rightarrow> 1)"

lemma stopping_step:
  assumes "th_step api nd t u v th th'" "th_sig th = Stop_Joining" "\<not> bgrunning (th_sq th)"
  shows "stop_distance th' < stop_distance th \<or>
    (\<exists>alloc w s'. push_row api nd alloc v w (th_sq th) = Inr s' \<and> th' = th\<lparr>th_sq := s'\<rparr>)"
  using assms by (cases rule: th_step.cases) (auto simp: stop_distance_def bg_take_def stop_joined_def)

lemma stopping_progress:
  assumes "th_inv t th" "th_sig th = Stop_Joining" "\<not> bgrunning (th_sq th)"
  shows "\<exists>th'. th_step api nd t u v th th' \<and> stop_distance th' < stop_distance th \<and>
    th_sig th' \<in> {Stop_Joining, Stop_Over} \<and> \<not> bgrunning (th_sq th')"
proof (cases "th_bg th")
  case Bg_Head
  then have "th_step api nd t u v th (th\<lparr>th_bg := Bg_Returned\<rparr>)"
    using assms(3) by (intro th_step.take) (simp_all add: bg_take_def)
  then show ?thesis using assms Bg_Head by (auto simp: stop_distance_def)
next
  case (Bg_Holds q)
  have nc: "\<not> th_closed th" using assms(1,2) by (auto simp: th_inv_def)
  obtain st s where x: "db_exec DEPTH api q (th_sq th) = Some (st, s)" using db_exec_depth by blast
  then have "th_step api nd t u v th (th\<lparr>th_sq := s, th_bg := Bg_Head\<rparr>)" using Bg_Holds nc by (intro th_step.execute)
  moreover have "\<not> bgrunning s" using x assms(3) by (auto simp: db_exec_depth)
  ultimately show ?thesis using assms Bg_Holds by (auto simp: stop_distance_def)
next
  case Bg_Returned
  then have "th_step api nd t u v th (stop_joined api th)" using assms(2) by (intro th_step.join)
  then show ?thesis using assms Bg_Returned by (auto simp: stop_distance_def stop_joined_def db_close_def)
qed

lemma stopping_ends:
  assumes "th_reach api nd t u v s th" "sq_ready s" "u \<noteq> t" "v \<noteq> t" "th_sig th \<in> {Stop_Joining, Stop_Over}"
  shows "\<exists>th'. (th_step api nd t u v)\<^sup>*\<^sup>* th th' \<and> th_sig th' = Stop_Over"
  using assms
proof (induction "stop_distance th" arbitrary: th rule: less_induct)
  case less
  show ?case
  proof (cases "th_sig th = Stop_Over")
    case False
    then have j: "th_sig th = Stop_Joining" using less.prems(5) by simp
    obtain th1 where th1: "th_step api nd t u v th th1" "stop_distance th1 < stop_distance th"
      "th_sig th1 \<in> {Stop_Joining, Stop_Over}"
      using stopping_progress [OF th_reach_inv [OF less.prems(1-4)] j stopping_flag [OF less.prems(1,5)]] by blast
    then show ?thesis
      using less.hyps [OF th1(2) th_reach.step [OF less.prems(1) th1(1)] less.prems(2-4) th1(3)]
      by (meson converse_rtranclp_into_rtranclp)
  qed blast
qed

text \<open>A rotation under way comes to its end by the steps of its own thread.\<close>

lemma rotation_ends:
  assumes "th_sig th \<notin> {Stop_Joining, Stop_Over}"
  shows "\<exists>th'. (th_step api nd t u v)\<^sup>*\<^sup>* th th' \<and> th_sig th' = Sig_Idle"
proof -
  have opened: "\<exists>th'. (th_step api nd t u v)\<^sup>*\<^sup>* a th' \<and> th_sig th' = Sig_Idle" if "th_sig a = Rot_Opened" for a
    using th_step.unlock [OF that] by (intro exI [of _ "rot_unlock t a"]) (auto simp: rot_unlock_def)
  have closed: "\<exists>th'. (th_step api nd t u v)\<^sup>*\<^sup>* a th' \<and> th_sig th' = Sig_Idle" if "th_sig a = Rot_Closed" for a
  proof -
    obtain st s where "db_open api (dbfile (th_sq a)) (th_sq a) = Some (st, s)" using db_open_total by blast
    then have "th_step api nd t u v a (a\<lparr>th_sq := s, th_sig := Rot_Opened, th_closed := False\<rparr>)"
      using that by (intro th_step.reopen) (simp_all add: rot_open_def)
    then show ?thesis
      using opened [of "a\<lparr>th_sq := s, th_sig := Rot_Opened, th_closed := False\<rparr>"]
      by (auto intro: converse_rtranclp_into_rtranclp)
  qed
  show ?thesis
  proof (cases "th_sig th")
    case Rot_Locked
    then have "th_step api nd t u v th (rot_close api th)" by (rule th_step.close)
    then show ?thesis
      using closed [of "rot_close api th"] by (auto simp: rot_close_def intro: converse_rtranclp_into_rtranclp)
  qed (use assms opened closed in auto)
qed



end
