(* ===== verification/Logfile_Threads.thy ===== *)
theory Logfile_Threads
  imports Logfile Threads
begin

text \<open>
  The log file of \<^verbatim>\<open>src/pdns-logger-file.c\<close> under threads. No lock protects \<^verbatim>\<open>fp\<close>: connection
  threads write lines, the handler of the hangup signal reopens the file, the main thread closes it
  at shutdown, and other programs rename files and change permissions. Elsewhere \<^verbatim>\<open>write_log\<close>,
  \<^verbatim>\<open>logfile_rotate\<close> and \<^verbatim>\<open>logfile_stop\<close> are single steps; here each of their tests, calls and
  assignments is a step of its own. A call of the C library on a stream is not cut: stdio locks the
  stream.
\<close>

section \<open>Threads\<close>

text \<open>
  A writer is outside \<^verbatim>\<open>write_log\<close>, past the test of \<^verbatim>\<open>fp\<close> with its line, or past \<^verbatim>\<open>fprintf\<close>. The
  signal handler is past its test, or has got NULL from \<^verbatim>\<open>freopen\<close> and not stored it. The main
  thread has freed the name, has tested \<^verbatim>\<open>fp\<close>, or is done.
\<close>

datatype writer_at = W_Idle | W_Tested string | W_Printed

datatype hup_at = H_Idle | H_Tested | H_Failed

datatype halt_at = Halt_Not | Halt_Freed | Halt_Tested | Halt_Done

text \<open>
  \<open>lt_crash\<close>: a thread has used \<^verbatim>\<open>fp\<close> when it was NULL or closed. \<open>lt_printed\<close>: the lines that have
  gone through \<^verbatim>\<open>fprintf\<close>, in this order, with the file the stream was on. \<open>lt_failed\<close>: a reopening
  has failed. The last two influence no step.
\<close>

record log_threads =
  lt_lf :: logfile
  lt_writer :: "nat \<Rightarrow> writer_at"
  lt_hup :: hup_at
  lt_halt :: halt_at
  lt_crash :: "stop option"
  lt_printed :: "(nat \<times> string) list"
  lt_failed :: bool

definition stream_file :: "file_ptr \<Rightarrow> nat" where
  "stream_file f = (case f of Fp_Open i b \<Rightarrow> i | _ \<Rightarrow> 0)"

definition write_test :: "nat \<Rightarrow> string \<Rightarrow> log_threads \<Rightarrow> log_threads" where
  "write_test w str th =
     (if fp (lt_lf th) = Fp_Null then th else th\<lparr>lt_writer := (lt_writer th)(w := W_Tested str)\<rparr>)"

definition write_print :: "(string \<Rightarrow> nat) \<Rightarrow> nat \<Rightarrow> string \<Rightarrow> log_threads \<Rightarrow> log_threads" where
  "write_print spill w str th =
     (let s = lt_lf th
      in case fprintf spill (str @ [newline]) (fp s) (lf_disk s) of
        Inl e \<Rightarrow> th\<lparr>lt_crash := Some e\<rparr>
      | Inr (f, d) \<Rightarrow>
          th\<lparr>lt_lf := s\<lparr>fp := f, lf_disk := d\<rparr>, lt_writer := (lt_writer th)(w := W_Printed),
             lt_printed := lt_printed th @ [(stream_file (fp s), str @ [newline])]\<rparr>)"

definition write_flush :: "nat \<Rightarrow> log_threads \<Rightarrow> log_threads" where
  "write_flush w th =
     (let s = lt_lf th; idle = (lt_writer th)(w := W_Idle)
      in if \<not> force_flush s then th\<lparr>lt_writer := idle\<rparr>
         else case fflush (fp s) (lf_disk s) of
           Inl e \<Rightarrow> th\<lparr>lt_crash := Some e\<rparr>
         | Inr (f, d) \<Rightarrow> th\<lparr>lt_lf := s\<lparr>fp := f, lf_disk := d\<rparr>, lt_writer := idle\<rparr>)"

definition hup_test :: "log_threads \<Rightarrow> log_threads" where
  "hup_test th = (if fp (lt_lf th) = Fp_Null then th else th\<lparr>lt_hup := H_Tested\<rparr>)"

text \<open>A failed \<^verbatim>\<open>freopen\<close> has closed the stream \<^verbatim>\<open>fp\<close> still points to.\<close>

definition hup_freopen :: "log_threads \<Rightarrow> log_threads" where
  "hup_freopen th =
     (let s = lt_lf th
      in case freopen_append (lf_file s) (fp s) (lf_disk s) of
        Inl e \<Rightarrow> th\<lparr>lt_crash := Some e\<rparr>
      | Inr (f, d) \<Rightarrow>
          if f = Fp_Null
          then th\<lparr>lt_lf := s\<lparr>fp := Fp_Closed, lf_disk := d\<rparr>, lt_hup := H_Failed, lt_failed := True\<rparr>
          else th\<lparr>lt_lf := s\<lparr>fp := f, lf_disk := d\<rparr>, lt_hup := H_Idle\<rparr>)"

definition hup_assign :: "log_threads \<Rightarrow> log_threads" where
  "hup_assign th = th\<lparr>lt_lf := (lt_lf th)\<lparr>fp := Fp_Null\<rparr>, lt_hup := H_Idle\<rparr>"

definition halt_free :: "log_threads \<Rightarrow> log_threads" where
  "halt_free th = th\<lparr>lt_lf := (lt_lf th)\<lparr>lf_file := None\<rparr>, lt_halt := Halt_Freed\<rparr>"

definition halt_test :: "log_threads \<Rightarrow> log_threads" where
  "halt_test th = th\<lparr>lt_halt := (if fp (lt_lf th) = Fp_Null then Halt_Done else Halt_Tested)\<rparr>"

definition halt_close :: "log_threads \<Rightarrow> log_threads" where
  "halt_close th =
     (let s = lt_lf th
      in case fclose (fp s) (lf_disk s) of
        Inl e \<Rightarrow> th\<lparr>lt_crash := Some e\<rparr>
      | Inr (f, d) \<Rightarrow> th\<lparr>lt_lf := s\<lparr>fp := f, lf_disk := d\<rparr>, lt_halt := Halt_Done\<rparr>)"

inductive lt_step :: "(string \<Rightarrow> nat) \<Rightarrow> log_threads \<Rightarrow> log_threads \<Rightarrow> bool" for spill where
  write_test: "lt_crash th = None \<Longrightarrow> lt_writer th w = W_Idle \<Longrightarrow> lt_step spill th (write_test w str th)"
| write_print: "lt_crash th = None \<Longrightarrow> lt_writer th w = W_Tested str \<Longrightarrow> lt_step spill th (write_print spill w str th)"
| write_flush: "lt_crash th = None \<Longrightarrow> lt_writer th w = W_Printed \<Longrightarrow> lt_step spill th (write_flush w th)"
| hup_test: "lt_crash th = None \<Longrightarrow> lt_hup th = H_Idle \<Longrightarrow> lt_step spill th (hup_test th)"
| hup_freopen: "lt_crash th = None \<Longrightarrow> lt_hup th = H_Tested \<Longrightarrow> lt_step spill th (hup_freopen th)"
| hup_assign: "lt_crash th = None \<Longrightarrow> lt_hup th = H_Failed \<Longrightarrow> lt_step spill th (hup_assign th)"
| halt_free: "lt_crash th = None \<Longrightarrow> lt_halt th = Halt_Not \<Longrightarrow> lt_step spill th (halt_free th)"
| halt_test: "lt_crash th = None \<Longrightarrow> lt_halt th = Halt_Freed \<Longrightarrow> lt_step spill th (halt_test th)"
| halt_close: "lt_crash th = None \<Longrightarrow> lt_halt th = Halt_Tested \<Longrightarrow> lt_step spill th (halt_close th)"
| others: "lt_crash th = None \<Longrightarrow> ran ns \<subseteq> ran (names (lf_disk (lt_lf th))) \<Longrightarrow>
    lt_step spill th (th\<lparr>lt_lf := (lt_lf th)\<lparr>lf_disk := (lf_disk (lt_lf th))\<lparr>names := ns, writable := wr\<rparr>\<rparr>\<rparr>)"

definition calm :: "logfile \<Rightarrow> log_threads" where
  "calm s =
     \<lparr>lt_lf = s, lt_writer = (\<lambda>_. W_Idle), lt_hup = H_Idle, lt_halt = Halt_Not, lt_crash = None, lt_printed = [], lt_failed = False\<rparr>"

inductive lt_reach :: "(string \<Rightarrow> nat) \<Rightarrow> logfile \<Rightarrow> log_threads \<Rightarrow> bool" for spill s where
  start: "lt_reach spill s (calm s)"
| step: "lt_reach spill s th \<Longrightarrow> lt_step spill th th' \<Longrightarrow> lt_reach spill s th'"

section \<open>What can go wrong\<close>

definition past_test :: "log_threads \<Rightarrow> bool" where
  "past_test th \<longleftrightarrow> (\<exists>w. lt_writer th w \<noteq> W_Idle) \<or> lt_hup th \<noteq> H_Idle \<or> lt_halt th = Halt_Tested"

definition crash_inv :: "log_threads \<Rightarrow> bool" where
  "crash_inv th \<longleftrightarrow>
     (fp (lt_lf th) = Fp_Null \<and> past_test th \<longrightarrow> lt_failed th) \<and>
     (fp (lt_lf th) = Fp_Closed \<longrightarrow> lt_failed th \<or> lt_halt th = Halt_Done) \<and>
     (lt_hup th = H_Failed \<longrightarrow> lt_failed th) \<and>
     (case lt_crash th of
        None \<Rightarrow> True
      | Some e \<Rightarrow> e = Null_Deref \<and> lt_failed th \<or> e = Use_After_Free \<and> (lt_failed th \<or> lt_halt th = Halt_Done))"

lemma lt_step_crash_inv:
  assumes "lt_step spill th th'" "crash_inv th"
  shows "crash_inv th'"
  using assms
proof (cases rule: lt_step.cases)
  case (write_test w str)
  with assms(2) show ?thesis by (auto simp: crash_inv_def write_test_def past_test_def)
next
  case (write_print w str)
  with assms(2) show ?thesis
    by (cases "fp (lt_lf th)") (auto simp: crash_inv_def write_print_def past_test_def fprintf_def Let_def intro: exI [of _ w])
next
  case (write_flush w)
  with assms(2) show ?thesis
    by (cases "fp (lt_lf th)") (auto simp: crash_inv_def write_flush_def past_test_def fflush_def Let_def intro: exI [of _ w])
next
  case hup_freopen
  with assms(2) show ?thesis
    by (cases "fp (lt_lf th)")
      (auto simp: crash_inv_def hup_freopen_def past_test_def freopen_append_def fclose_def fflush_def fopen_append_def Let_def
        split: option.splits)
next
  case halt_close
  with assms(2) show ?thesis
    by (cases "fp (lt_lf th)") (auto simp: crash_inv_def halt_close_def past_test_def fclose_def fflush_def Let_def)
qed (auto simp: crash_inv_def hup_test_def hup_assign_def halt_free_def halt_test_def past_test_def)

lemma lt_reach_crash_inv:
  assumes "lt_reach spill s th" "fp s \<noteq> Fp_Closed"
  shows "crash_inv th"
  using assms
proof (induction rule: lt_reach.induct)
  case start
  then show ?case by (simp add: crash_inv_def calm_def past_test_def)
qed (blast intro: lt_step_crash_inv)

text \<open>
  C21. What can go wrong with the log file under threads, for every number of writers and every
  interleaving with rotations, shutdown and renaming: the only undefined behaviour is a use of \<^verbatim>\<open>fp\<close>
  when it is NULL, after a rotation that could not reopen the file, or when it is closed, after such
  a rotation or after shutdown. As long as the file can be reopened and the daemon runs, the missing
  lock does no harm.
\<close>

theorem log_threads_crash:
  assumes "lt_reach spill s th" "fp s \<noteq> Fp_Closed" "lt_crash th = Some e"
  shows "e = Null_Deref \<and> lt_failed th \<or> e = Use_After_Free \<and> (lt_failed th \<or> lt_halt th = Halt_Done)"
  using lt_reach_crash_inv [OF assms(1,2)] assms(3) by (simp add: crash_inv_def)

text \<open>It does happen: a writer past its test meets a rotation that fails.\<close>

lemma log_threads_null:
  assumes "fp s = Fp_Open i b" "lf_file s = Some p" "\<not> writable (lf_disk s) p"
  shows "\<exists>th. lt_reach spill s th \<and> lt_crash th = Some Null_Deref"
proof -
  define a where "a = hup_test (write_test 0 [] (calm s))"
  define c where "c = hup_freopen a"
  have pc: "lt_writer a 0 = W_Tested []" "lt_hup a = H_Tested" "lt_crash a = None" "lt_lf a = s"
    using assms(1) by (simp_all add: a_def calm_def write_test_def hup_test_def)
  then have pc': "lt_writer c 0 = W_Tested []" "lt_hup c = H_Failed" "lt_crash c = None"
    using assms
    by (simp_all add: c_def hup_freopen_def freopen_append_def fclose_def fflush_def fopen_append_def append_to_def)
  have "lt_step spill (calm s) (write_test 0 [] (calm s))" by (rule lt_step.write_test) (simp_all add: calm_def)
  moreover have "lt_step spill (write_test 0 [] (calm s)) a"
    unfolding a_def by (rule lt_step.hup_test) (simp_all add: calm_def write_test_def)
  moreover have "lt_step spill a c" unfolding c_def using pc by (intro lt_step.hup_freopen)
  moreover have "lt_step spill c (hup_assign c)" using pc' by (intro lt_step.hup_assign)
  moreover have "lt_step spill (hup_assign c) (write_print spill 0 [] (hup_assign c))"
    by (rule lt_step.write_print) (simp_all add: hup_assign_def pc')
  ultimately have "lt_reach spill s (write_print spill 0 [] (hup_assign c))" by (meson lt_reach.intros)
  moreover have "lt_crash (write_print spill 0 [] (hup_assign c)) = Some Null_Deref"
    by (simp add: write_print_def hup_assign_def fprintf_def)
  ultimately show ?thesis by blast
qed

section \<open>Where the lines go\<close>

text \<open>What a file and the buffer of a stream on it hold together.\<close>

definition file_text :: "logfile \<Rightarrow> nat \<Rightarrow> string" where
  "file_text s i = contents (lf_disk s) i @ (case fp s of Fp_Open j b \<Rightarrow> if j = i then b else [] | _ \<Rightarrow> [])"

definition lines_on :: "nat \<Rightarrow> (nat \<times> string) list \<Rightarrow> string" where
  "lines_on i ps = concat (map snd (filter (\<lambda>p. fst p = i) ps))"

text \<open>No stream and no name leads to a file that does not exist yet.\<close>

definition disk_wf :: "logfile \<Rightarrow> bool" where
  "disk_wf s \<longleftrightarrow>
     (\<forall>p i. names (lf_disk s) p = Some i \<longrightarrow> i < fresh (lf_disk s)) \<and>
     (case fp s of Fp_Open i b \<Rightarrow> i < fresh (lf_disk s) | _ \<Rightarrow> True)"

text \<open>What the calls of the library do to the text of the files.\<close>

definition same_text :: "logfile \<Rightarrow> logfile \<Rightarrow> bool" where
  "same_text s s' \<longleftrightarrow>
     disk_wf s' \<and> fresh (lf_disk s) \<le> fresh (lf_disk s') \<and> force_flush s' = force_flush s \<and>
     (\<forall>i < fresh (lf_disk s'). file_text s' i = (if i < fresh (lf_disk s) then file_text s i else []))"

lemma fflush_text:
  assumes "fflush (fp s) (lf_disk s) = Inr (f, d)" "disk_wf s"
  shows "same_text s (s\<lparr>fp := f, lf_disk := d\<rparr>)" "\<exists>i. f = Fp_Open i []"
  using assms by (auto simp: fflush_def same_text_def disk_wf_def file_text_def append_to_def split: file_ptr.splits)

lemma fclose_text:
  assumes "fclose (fp s) (lf_disk s) = Inr (f, d)" "disk_wf s"
  shows "same_text s (s\<lparr>fp := f, lf_disk := d\<rparr>)" "f = Fp_Closed"
  using assms
  by (auto simp: fclose_def fflush_def same_text_def disk_wf_def file_text_def append_to_def split: file_ptr.splits)

lemma fopen_text:
  assumes "fopen_append p (lf_disk s) = (f, d)" "disk_wf s" "fp s = Fp_Closed"
  shows "same_text s (s\<lparr>fp := f, lf_disk := d\<rparr>)" "f = Fp_Null \<or> (\<exists>i. f = Fp_Open i [])"
  using assms
  by (auto simp: fopen_append_def same_text_def disk_wf_def file_text_def less_Suc_eq split: if_splits option.splits)

lemma same_text_names:
  assumes "disk_wf s" "fp s' = fp s" "force_flush s' = force_flush s" "contents (lf_disk s') = contents (lf_disk s)"
    "fresh (lf_disk s') = fresh (lf_disk s)" "ran (names (lf_disk s')) \<subseteq> ran (names (lf_disk s))"
  shows "same_text s s'"
proof -
  have "\<forall>p i. names (lf_disk s') p = Some i \<longrightarrow> i < fresh (lf_disk s)"
    using assms(1,6) by (force simp: disk_wf_def ran_def)
  then show ?thesis using assms(1-5) by (auto simp: same_text_def disk_wf_def file_text_def split: file_ptr.splits)
qed

lemma same_text_trans: "same_text s s' \<Longrightarrow> same_text s' s'' \<Longrightarrow> same_text s s''"
  by (auto simp: same_text_def)

lemma freopen_text:
  assumes "freopen_append path (fp s) (lf_disk s) = Inr (f, d)" "disk_wf s"
  shows "same_text s (s\<lparr>fp := f, lf_disk := d\<rparr>)" "f = Fp_Null \<or> (\<exists>i. f = Fp_Open i [])"
proof -
  have "same_text s (s\<lparr>fp := f, lf_disk := d\<rparr>) \<and> (f = Fp_Null \<or> (\<exists>i. f = Fp_Open i []))"
  proof (cases path)
    case None
    then show ?thesis using assms fflush_text by (simp add: freopen_append_def)
  next
    case (Some p)
    then obtain f' d' where c: "fclose (fp s) (lf_disk s) = Inr (f', d')" "fopen_append p d' = (f, d)"
      using assms(1) by (auto simp: freopen_append_def)
    let ?s = "s\<lparr>fp := f', lf_disk := d'\<rparr>"
    note cl = fclose_text [OF c(1) assms(2)]
    then have "same_text ?s (?s\<lparr>fp := f, lf_disk := d\<rparr>)" "f = Fp_Null \<or> (\<exists>i. f = Fp_Open i [])"
      using fopen_text [of p ?s f d] c(2) by (auto simp: same_text_def)
    then show ?thesis using same_text_trans [OF cl(1)] by simp
  qed
  then show "same_text s (s\<lparr>fp := f, lf_disk := d\<rparr>)" "f = Fp_Null \<or> (\<exists>i. f = Fp_Open i [])" by auto
qed

text \<open>The invariant: every file holds what it held and the lines printed to it, and what waits in the buffer is waited for.\<close>

definition unflushed :: "logfile \<Rightarrow> bool" where
  "unflushed s \<longleftrightarrow> force_flush s \<and> (case fp s of Fp_Open i b \<Rightarrow> b \<noteq> [] | _ \<Rightarrow> False)"

definition lines_inv :: "logfile \<Rightarrow> log_threads \<Rightarrow> bool" where
  "lines_inv s th \<longleftrightarrow>
     disk_wf (lt_lf th) \<and> fresh (lf_disk s) \<le> fresh (lf_disk (lt_lf th)) \<and>
     (\<forall>p \<in> set (lt_printed th). fst p < fresh (lf_disk (lt_lf th))) \<and>
     (\<forall>i < fresh (lf_disk (lt_lf th)).
        file_text (lt_lf th) i = (if i < fresh (lf_disk s) then file_text s i else []) @ lines_on i (lt_printed th)) \<and>
     force_flush (lt_lf th) = force_flush s \<and>
     (unflushed (lt_lf th) \<longrightarrow> (\<exists>w. lt_writer th w = W_Printed)) \<and>
     (lt_hup th = H_Failed \<longrightarrow> fp (lt_lf th) = Fp_Closed)"

lemma lines_on_none: "\<forall>p \<in> set ps. fst p < n \<Longrightarrow> n \<le> i \<Longrightarrow> lines_on i ps = []"
  by (auto simp: lines_on_def filter_empty_conv)

lemma lines_inv_same_text:
  assumes "lines_inv s th" "same_text (lt_lf th) (lt_lf th')" "lt_printed th' = lt_printed th"
    "unflushed (lt_lf th') \<Longrightarrow> \<exists>w. lt_writer th' w = W_Printed" "lt_hup th' = H_Failed \<Longrightarrow> fp (lt_lf th') = Fp_Closed"
  shows "lines_inv s th'"
proof -
  have "lines_on i (lt_printed th) = []" if "fresh (lf_disk (lt_lf th)) \<le> i" for i
    using assms(1) that lines_on_none unfolding lines_inv_def by blast
  then show ?thesis using assms unfolding lines_inv_def same_text_def by fastforce
qed

lemma fprintf_text:
  assumes "fprintf spill str (Fp_Open i b) d = Inr (f, d')"
  shows "\<exists>now later. b @ str = now @ later \<and> f = Fp_Open i later \<and> d' = append_to i now d"
  using assms by (auto simp: fprintf_def Let_def intro: append_take_drop_id [symmetric] simp del: take_append drop_append)

lemma lines_inv_print:
  assumes "lines_inv s th"
  shows "lines_inv s (write_print spill w str th)"
proof (cases "fp (lt_lf th)")
  case (Fp_Open i b)
  obtain f d where fd: "fprintf spill (str @ [newline]) (Fp_Open i b) (lf_disk (lt_lf th)) = Inr (f, d)"
    by (simp add: fprintf_def Let_def)
  obtain now later where nl: "b @ str @ [newline] = now @ later" "f = Fp_Open i later" "d = append_to i now (lf_disk (lt_lf th))"
    using fprintf_text [OF fd] by auto
  let ?s' = "(lt_lf th)\<lparr>fp := f, lf_disk := d\<rparr>"
  have "file_text ?s' j = file_text (lt_lf th) j @ (if j = i then str @ [newline] else [])" for j
    using nl Fp_Open by (simp add: file_text_def append_to_def)
  moreover have "lines_on j (ps @ [(i, l)]) = lines_on j ps @ (if j = i then l else [])" for j ps l
    by (simp add: lines_on_def)
  moreover have "write_print spill w str th =
      th\<lparr>lt_lf := ?s', lt_writer := (lt_writer th)(w := W_Printed), lt_printed := lt_printed th @ [(i, str @ [newline])]\<rparr>"
    using Fp_Open fd by (simp add: write_print_def stream_file_def Let_def)
  moreover have "disk_wf ?s'" "fresh d = fresh (lf_disk (lt_lf th))" "i < fresh (lf_disk (lt_lf th))"
    using assms nl(2,3) Fp_Open by (auto simp: lines_inv_def disk_wf_def append_to_def)
  moreover have "lt_hup th \<noteq> H_Failed" using assms Fp_Open by (auto simp: lines_inv_def)
  ultimately show ?thesis using assms by (auto simp: lines_inv_def intro: exI [of _ w])
qed (use assms in \<open>simp_all add: lines_inv_def write_print_def fprintf_def Let_def\<close>)

lemma lt_step_lines_inv:
  assumes "lt_step spill th th'" "lines_inv s th"
  shows "lines_inv s th'"
  using assms
proof (cases rule: lt_step.cases)
  case (write_print w str)
  then show ?thesis using lines_inv_print [OF assms(2)] by simp
next
  case (write_flush w)
  have wf: "disk_wf (lt_lf th)" using assms(2) by (simp add: lines_inv_def)
  show ?thesis
  proof (cases "force_flush (lt_lf th)")
    case False
    with write_flush assms(2) show ?thesis by (simp add: write_flush_def lines_inv_def unflushed_def)
  next
    case True
    show ?thesis
    proof (cases "fflush (fp (lt_lf th)) (lf_disk (lt_lf th))")
      case (Inl e)
      with write_flush assms(2) True show ?thesis by (simp add: write_flush_def lines_inv_def)
    next
      case (Inr fd)
      obtain f d where fd: "fd = (f, d)" by (cases fd)
      note fl = fflush_text [OF Inr [unfolded fd] wf]
      have "lt_hup th \<noteq> H_Failed" using assms(2) Inr by (auto simp: lines_inv_def fflush_def)
      with write_flush True Inr fd fl show ?thesis
        by (intro lines_inv_same_text [OF assms(2)]) (auto simp: write_flush_def unflushed_def)
    qed
  qed
next
  case hup_freopen
  have wf: "disk_wf (lt_lf th)" using assms(2) by (simp add: lines_inv_def)
  show ?thesis
  proof (cases "freopen_append (lf_file (lt_lf th)) (fp (lt_lf th)) (lf_disk (lt_lf th))")
    case (Inl e)
    with hup_freopen assms(2) show ?thesis by (simp add: hup_freopen_def lines_inv_def)
  next
    case (Inr fd)
    obtain f d where fd: "fd = (f, d)" by (cases fd)
    note fr = freopen_text [OF Inr [unfolded fd] wf]
    have "same_text (lt_lf th) ((lt_lf th)\<lparr>fp := Fp_Closed, lf_disk := d\<rparr>)" if "f = Fp_Null"
      using fr(1) that by (simp add: same_text_def disk_wf_def file_text_def)
    with hup_freopen Inr fd fr show ?thesis
      by (intro lines_inv_same_text [OF assms(2)]) (auto simp: hup_freopen_def unflushed_def)
  qed
next
  case halt_close
  have wf: "disk_wf (lt_lf th)" using assms(2) by (simp add: lines_inv_def)
  show ?thesis
  proof (cases "fclose (fp (lt_lf th)) (lf_disk (lt_lf th))")
    case (Inl e)
    with halt_close assms(2) show ?thesis by (simp add: halt_close_def lines_inv_def)
  next
    case (Inr fd)
    obtain f d where fd: "fd = (f, d)" by (cases fd)
    note cl = fclose_text [OF Inr [unfolded fd] wf]
    from halt_close Inr fd cl show ?thesis
      by (intro lines_inv_same_text [OF assms(2)]) (auto simp: halt_close_def unflushed_def)
  qed
next
  case (write_test w str)
  have "\<exists>v. ((lt_writer th)(w := W_Tested str)) v = W_Printed" if "lt_writer th v = W_Printed" for v
    using write_test that by (intro exI [of _ v]) auto
  with write_test assms(2) show ?thesis by (auto simp: write_test_def lines_inv_def simp del: fun_upd_apply)
next
  case hup_assign
  have closed: "fp (lt_lf th) = Fp_Closed" "disk_wf (lt_lf th)" using hup_assign assms(2) by (auto simp: lines_inv_def)
  then have "same_text (lt_lf th) ((lt_lf th)\<lparr>fp := Fp_Null\<rparr>)" by (simp add: same_text_def disk_wf_def file_text_def)
  with hup_assign show ?thesis
    by (intro lines_inv_same_text [OF assms(2)]) (auto simp: hup_assign_def unflushed_def)
next
  case halt_free
  have wf: "disk_wf (lt_lf th)" using assms(2) by (simp add: lines_inv_def)
  have "same_text (lt_lf th) ((lt_lf th)\<lparr>lf_file := None\<rparr>)" by (rule same_text_names [OF wf]) simp_all
  with halt_free assms(2) show ?thesis
    by (intro lines_inv_same_text [OF assms(2)]) (auto simp: halt_free_def lines_inv_def unflushed_def)
next
  case (others ns wr)
  have wf: "disk_wf (lt_lf th)" using assms(2) by (simp add: lines_inv_def)
  have "same_text (lt_lf th) ((lt_lf th)\<lparr>lf_disk := (lf_disk (lt_lf th))\<lparr>names := ns, writable := wr\<rparr>\<rparr>)"
    by (rule same_text_names [OF wf]) (use others in simp_all)
  with others assms(2) show ?thesis
    by (intro lines_inv_same_text [OF assms(2)]) (auto simp: lines_inv_def unflushed_def)
qed (use assms(2) in \<open>auto simp: hup_test_def halt_test_def lines_inv_def\<close>)

lemma lt_reach_lines_inv:
  assumes "lt_reach spill s th" "disk_wf s" "\<not> unflushed s"
  shows "lines_inv s th"
  using assms
proof (induction rule: lt_reach.induct)
  case start
  then show ?case by (simp add: lines_inv_def calm_def lines_on_def)
qed (blast intro: lt_step_lines_inv)

text \<open>
  C20. Lines under threads: at every moment of every interleaving, also after a crash, each file
  holds (with what the stream on it still buffers) what it held at the start, followed by exactly
  the lines printed while the stream was on it, whole and in the order of the \<^verbatim>\<open>fprintf\<close> calls;
  rotations, failed ones too, and shutdown lose, repeat and split none. With \<^verbatim>\<open>force-flush\<close> nothing
  is buffered when no writer is inside \<^verbatim>\<open>write_log\<close>.
\<close>

theorem log_threads_lines:
  assumes "lt_reach spill s th" "disk_wf s" "\<not> unflushed s"
  shows "(\<forall>i < fresh (lf_disk (lt_lf th)).
      file_text (lt_lf th) i = (if i < fresh (lf_disk s) then file_text s i else []) @ lines_on i (lt_printed th)) \<and>
    (force_flush s \<and> (\<forall>w. lt_writer th w = W_Idle) \<longrightarrow>
       (\<forall>i. file_text (lt_lf th) i = contents (lf_disk (lt_lf th)) i))"
  using lt_reach_lines_inv [OF assms]
  by (auto simp: lines_inv_def unflushed_def file_text_def [of "lt_lf th"] split: file_ptr.splits)

section \<open>Atomic calls are uninterrupted runs\<close>

text \<open>The threads outside the engine, after some lines.\<close>

definition settled :: "logfile \<Rightarrow> (nat \<times> string) list \<Rightarrow> bool \<Rightarrow> log_threads" where
  "settled s ps e = (calm s)\<lparr>lt_printed := ps, lt_failed := e\<rparr>"

lemma settled_fields [simp]:
  "lt_lf (settled s ps e) = s" "lt_writer (settled s ps e) = (\<lambda>_. W_Idle)" "lt_hup (settled s ps e) = H_Idle"
  "lt_halt (settled s ps e) = Halt_Not" "lt_crash (settled s ps e) = None" "lt_printed (settled s ps e) = ps"
  "lt_failed (settled s ps e) = e"
  by (simp_all add: settled_def calm_def)

lemma write_log_run:
  assumes "logfile_write_log spill str s = Inr s'"
  shows "\<exists>ps'. (lt_step spill)\<^sup>*\<^sup>* (settled s ps e) (settled s' ps' e)"
proof (cases "fp s")
  case Fp_Null
  with assms show ?thesis by (auto simp: logfile_write_log_def)
next
  case Fp_Closed
  with assms show ?thesis by (simp add: logfile_write_log_def fprintf_def)
next
  case (Fp_Open i b)
  let ?a = "write_test 0 str (settled s ps e)"
  let ?b = "write_print spill 0 str ?a"
  have a: "lt_step spill (settled s ps e) ?a" by (rule lt_step.write_test) simp_all
  have b: "lt_step spill ?a ?b" by (rule lt_step.write_print) (use Fp_Open in \<open>simp_all add: write_test_def\<close>)
  have pc: "lt_crash ?b = None" "lt_writer ?b 0 = W_Printed"
    using Fp_Open by (simp_all add: write_print_def write_test_def fprintf_def Let_def)
  then have c: "lt_step spill ?b (write_flush 0 ?b)" by (rule lt_step.write_flush)
  have "write_flush 0 ?b = settled s' (ps @ [(i, str @ [newline])]) e"
    using assms Fp_Open
    by (auto simp: write_flush_def write_print_def write_test_def logfile_write_log_def fprintf_def fflush_def stream_file_def
        settled_def calm_def Let_def fun_upd_idem split: if_splits)
  with a b c show ?thesis by (metis r_into_rtranclp rtranclp.rtrancl_into_rtrancl)
qed

lemma hup_run:
  assumes "logfile_rotate s = Inr (st, s')"
  shows "\<exists>e'. (lt_step spill)\<^sup>*\<^sup>* (settled s ps e) (settled s' ps e')"
proof (cases "fp s = Fp_Null")
  case True
  with assms show ?thesis by (auto simp: logfile_rotate_def)
next
  case False
  let ?a = "hup_test (settled s ps e)"
  obtain f d where fd: "freopen_append (lf_file s) (fp s) (lf_disk s) = Inr (f, d)" "s' = s\<lparr>fp := f, lf_disk := d\<rparr>"
    using assms False by (auto simp: logfile_rotate_def)
  have a: "lt_step spill (settled s ps e) ?a" by (rule lt_step.hup_test) simp_all
  have b: "lt_step spill ?a (hup_freopen ?a)" by (rule lt_step.hup_freopen) (use False in \<open>simp_all add: hup_test_def\<close>)
  show ?thesis
  proof (cases "f = Fp_Null")
    case True
    have "lt_step spill (hup_freopen ?a) (hup_assign (hup_freopen ?a))"
      by (rule lt_step.hup_assign) (use False fd True in \<open>simp_all add: hup_freopen_def hup_test_def\<close>)
    moreover have "hup_assign (hup_freopen ?a) = settled s' ps True"
      using False fd True by (simp add: hup_assign_def hup_freopen_def hup_test_def settled_def calm_def)
    ultimately show ?thesis using a b by (metis r_into_rtranclp rtranclp.rtrancl_into_rtrancl)
  next
    case notnull: False
    have "hup_freopen ?a = settled s' ps e"
      using False fd notnull by (simp add: hup_freopen_def hup_test_def settled_def calm_def)
    with a b show ?thesis by (metis r_into_rtranclp rtranclp.rtrancl_into_rtrancl)
  qed
qed

lemma halt_run:
  assumes "logfile_stop s = Inr (st, s')"
  shows "\<exists>th. (lt_step spill)\<^sup>*\<^sup>* (settled s ps e) th \<and> lt_halt th = Halt_Done \<and> lt_lf th = s'"
proof -
  let ?a = "halt_free (settled s ps e)"
  have a: "lt_step spill (settled s ps e) ?a" by (rule lt_step.halt_free) simp_all
  have b: "lt_step spill ?a (halt_test ?a)" by (rule lt_step.halt_test) (simp_all add: halt_free_def)
  show ?thesis
  proof (cases "fp s = Fp_Null")
    case True
    with assms have "lt_lf (halt_test ?a) = s'" "lt_halt (halt_test ?a) = Halt_Done"
      by (auto simp: halt_test_def halt_free_def logfile_stop_def)
    moreover have "(lt_step spill)\<^sup>*\<^sup>* (settled s ps e) (halt_test ?a)"
      using a b by (meson r_into_rtranclp rtranclp.rtrancl_into_rtrancl)
    ultimately show ?thesis by blast
  next
    case False
    have c: "lt_step spill (halt_test ?a) (halt_close (halt_test ?a))"
      by (rule lt_step.halt_close) (use False in \<open>simp_all add: halt_test_def halt_free_def\<close>)
    have "lt_lf (halt_close (halt_test ?a)) = s'" "lt_halt (halt_close (halt_test ?a)) = Halt_Done"
      using assms False by (auto simp: halt_close_def halt_test_def halt_free_def logfile_stop_def)
    moreover have "(lt_step spill)\<^sup>*\<^sup>* (settled s ps e) (halt_close (halt_test ?a))"
      using a b c by (meson r_into_rtranclp rtranclp.rtrancl_into_rtrancl)
    ultimately show ?thesis by blast
  qed
qed

text \<open>The engine as the other theories see it: lines and rotations, each without interruption.\<close>

datatype log_op = Op_Line string | Op_Hup

definition log_op_step :: "(string \<Rightarrow> nat) \<Rightarrow> log_op \<Rightarrow> logfile \<Rightarrow> logfile res option" where
  "log_op_step spill x s =
     Some (case x of
        Op_Line str \<Rightarrow> logfile_write_log spill str s
      | Op_Hup \<Rightarrow> rbind (logfile_rotate s) (\<lambda>(st, s'). Inr s'))"

interpretation log_engine_threads: threaded "lt_step spill" "\<lambda>s (ps, e). settled s ps e" "log_op_step spill" "\<lambda>s. True"
proof unfold_locales
  fix x s s' g
  assume "log_op_step spill x s = Some (Inr s')"
  then show "True \<and> (\<exists>g'. (lt_step spill)\<^sup>*\<^sup>* (case g of (ps, e) \<Rightarrow> settled s ps e) (case g' of (ps, e) \<Rightarrow> settled s' ps e))"
    using write_log_run hup_run by (cases x; cases g) (fastforce simp: log_op_step_def)+
qed

lemma lt_reach_from: "(lt_step spill)\<^sup>*\<^sup>* th th' \<Longrightarrow> lt_reach spill s th \<Longrightarrow> lt_reach spill s th'"
  by (induction rule: rtranclp_induct) (auto intro: lt_reach.intros)

text \<open>
  The atomic view of the log file is sound: what any sequence of lines and rotations without
  interruption reaches, and what a shutdown after it leaves, is reached by the threads step by step.
\<close>

lemma log_atomic_runs_refine:
  assumes "call_all (log_op_step spill) ops s = Some (Inr s')"
  shows "(\<exists>ps e. lt_reach spill s (settled s' ps e)) \<and>
    (\<forall>st s''. logfile_stop s' = Inr (st, s'') \<longrightarrow>
       (\<exists>th. lt_reach spill s th \<and> lt_halt th = Halt_Done \<and> lt_lf th = s''))"
proof -
  have "settled s [] False = calm s" by (simp add: settled_def calm_def)
  then obtain ps e where r: "lt_reach spill s (settled s' ps e)"
    using log_engine_threads.calls_run [OF assms, of "([], False)"] lt_reach_from lt_reach.start by (metis case_prod_conv surj_pair)
  then show ?thesis using halt_run lt_reach_from by metis
qed

section \<open>Examples\<close>

definition locked_log :: logfile where
  "locked_log = example_logfile\<lparr>lf_disk := (lf_disk example_logfile)\<lparr>writable := (\<lambda>_. False)\<rparr>\<rparr>"

lemma locked_log_crash: "\<exists>th. lt_reach (\<lambda>_. 0) locked_log th \<and> lt_crash th = Some Null_Deref"
  by (rule log_threads_null [where i = 0 and b = "[]" and p = "''log''"]) (simp_all add: locked_log_def)

theorem log_threads_crash_witness:
  "\<exists>th. lt_reach (\<lambda>_. 0) locked_log th \<and> lt_crash th = Some Null_Deref \<and>
    (Null_Deref = Null_Deref \<and> lt_failed th \<or> Null_Deref = Use_After_Free \<and> (lt_failed th \<or> lt_halt th = Halt_Done))"
proof -
  obtain th where th: "lt_reach (\<lambda>_. 0) locked_log th" "lt_crash th = Some Null_Deref" using locked_log_crash by blast
  have "fp locked_log \<noteq> Fp_Closed" by (simp add: locked_log_def)
  from log_threads_crash [OF th(1) this th(2)] th show ?thesis by blast
qed

theorem log_threads_lines_witness:
  "\<exists>th. lt_reach (\<lambda>_. 0) locked_log th \<and> lt_crash th = Some Null_Deref \<and>
    (\<forall>i < fresh (lf_disk (lt_lf th)).
      file_text (lt_lf th) i = (if i < fresh (lf_disk locked_log) then file_text locked_log i else []) @ lines_on i (lt_printed th))"
proof -
  obtain th where th: "lt_reach (\<lambda>_. 0) locked_log th" "lt_crash th = Some Null_Deref" using locked_log_crash by blast
  have "disk_wf locked_log" "\<not> unflushed locked_log"
    by (simp_all add: locked_log_def disk_wf_def unflushed_def example_disk_def)
  from log_threads_lines [OF th(1) this] th show ?thesis by blast
qed

end
