(* ===== verification/Connections.thy ===== *)
theory Connections
  imports Protobuf_Stream
begin

text \<open>
  Several connections at once. Every connection has its own thread with its own buffer
  (\<^verbatim>\<open>socket_thread_exec\<close> of \<^verbatim>\<open>src/pdns-logger-protobuf.c\<close>); the loggers are shared. Here the threads take turns:
  one turn of a thread handles what one \<^verbatim>\<open>read\<close> event brings. The buffers do not disturb each other, so what
  the loggers see is a merge of what each connection sent.
\<close>

section \<open>Turns\<close>

record conn =
  cn_state :: thread_state
  cn_buf :: "u8 list"
  cn_size :: nat

text \<open>A thread that waits in \<^verbatim>\<open>read\<close> meets an event and runs until it waits again or ends.\<close>

definition conn_event ::
  "bool \<Rightarrow> (u8 list \<Rightarrow> 'm option) \<Rightarrow> ('m \<Rightarrow> 's \<Rightarrow> 's res) \<Rightarrow> sock_event \<Rightarrow> conn \<Rightarrow> 's \<Rightarrow> (conn \<times> 's) res" where
  "conn_event nd unpack log ev c s =
     (if cn_state c = Disconnected then Inr (c, s)
      else rbind (socket_thread_loop nd unpack log (cn_buf c) (cn_size c) [ev] s)
             (\<lambda>(st, b, n, s'). Inr (\<lparr>cn_state = st, cn_buf = b, cn_size = n\<rparr>, s')))"

fun serve_conns ::
  "bool \<Rightarrow> (u8 list \<Rightarrow> 'm option) \<Rightarrow> ('m \<Rightarrow> 's \<Rightarrow> 's res) \<Rightarrow> (nat \<times> sock_event) list \<Rightarrow> (nat \<Rightarrow> conn) \<Rightarrow> 's \<Rightarrow>
     ((nat \<Rightarrow> conn) \<times> 's) res" where
  "serve_conns nd unpack log [] cs s = Inr (cs, s)"
| "serve_conns nd unpack log ((k, ev) # evs) cs s =
     rbind (conn_event nd unpack log ev (cs k) s) (\<lambda>(c, s'). serve_conns nd unpack log evs (cs(k := c)) s')"

section \<open>Turns are pieces of the thread function\<close>

lemma thread_loop_data:
  assumes "n \<noteq> MAX_BUFFER_SIZE"
  shows "socket_thread_loop nd unpack log buf n (Sock_Data bs # evs) s =
    (let room = MAX_BUFFER_SIZE - n; got = take room bs
     in if got = [] then Inr (Disconnected, buf, n, s)
        else rbind (protobuf_extract nd unpack log (store_at buf n got) (n + length got) s) (\<lambda>(status, b, n', s').
          if status = PDNS_NO then Inr (Disconnected, b, n', s')
          else rbind (if status = PDNS_FORK then assert0 nd () else Inr ())
                 (\<lambda>_. socket_thread_loop nd unpack log b n' (next_events room bs evs) s')))"
proof (cases "take (MAX_BUFFER_SIZE - n) bs = []")
  case True
  then show ?thesis using assms by (simp add: socket_thread_loop.simps [of _ _ _ _ _ "Sock_Data bs # evs"] Let_def)
next
  case False
  let ?got = "take (MAX_BUFFER_SIZE - n) bs"
  show ?thesis
  proof (cases "protobuf_extract nd unpack log (store_at buf n ?got) (n + length ?got) s")
    case (Inl e)
    then show ?thesis
      using assms False by (simp add: socket_thread_loop.simps [of _ _ _ _ _ "Sock_Data bs # evs"] Let_def)
  next
    case (Inr x)
    obtain status b n' s' where "x = (status, b, n', s')" by (cases x)
    with Inr show ?thesis
      using assms False
      by (cases status) (simp_all add: socket_thread_loop.simps [of _ _ _ _ _ "Sock_Data bs # evs"] Let_def next_events_def)
  qed
qed

fun ev_size :: "sock_event list \<Rightarrow> nat" where
  "ev_size [] = 0"
| "ev_size (Sock_Data bs # evs) = Suc (length bs + ev_size evs)"
| "ev_size (ev # evs) = Suc (ev_size evs)"

lemma next_events_size:
  assumes "take room bs \<noteq> []"
  shows "ev_size (next_events room bs evs) < ev_size (Sock_Data bs # evs)"
  using assms by (auto simp: next_events_def)

lemma next_events_append: "next_events room bs (evs @ evs') = next_events room bs evs @ evs'"
  by (simp add: next_events_def)

lemma socket_thread_loop_append:
  "socket_thread_loop nd unpack log buf n (evs @ evs') s =
     rbind (socket_thread_loop nd unpack log buf n evs s) (\<lambda>(st, b, n', s').
       if st = Waiting then socket_thread_loop nd unpack log b n' evs' s' else Inr (st, b, n', s'))"
proof (induction "ev_size evs" arbitrary: evs buf n s rule: less_induct)
  case less
  show ?case
  proof (cases "n = MAX_BUFFER_SIZE \<or> evs = [] \<or> hd evs = Sock_Eof \<or> hd evs = Sock_Error")
    case True
    then show ?thesis by (cases evs) (auto simp: socket_thread_loop.simps)
  next
    case False
    then obtain bs rest where evs: "evs = Sock_Data bs # rest" "n \<noteq> MAX_BUFFER_SIZE"
      by (cases evs; cases "hd evs") auto
    let ?room = "MAX_BUFFER_SIZE - n"
    show ?thesis
    proof (cases "take ?room bs = []")
      case True
      then show ?thesis using evs by (simp add: thread_loop_data)
    next
      case got: False
      have "socket_thread_loop nd unpack log b n' (next_events ?room bs rest @ evs') s' =
        rbind (socket_thread_loop nd unpack log b n' (next_events ?room bs rest) s') (\<lambda>(st, b, n', s').
          if st = Waiting then socket_thread_loop nd unpack log b n' evs' s' else Inr (st, b, n', s'))" for b n' s'
        using next_events_size [OF got] evs(1) by (intro less) simp
      then show ?thesis
        unfolding evs(1) append_Cons thread_loop_data [OF evs(2)] Let_def next_events_append
        by (simp add: rbind_assoc split_def got if_distrib [where f = "\<lambda>m. rbind m _"] cong: if_cong)
    qed
  qed
qed

text \<open>The turns of a connection that is served alone are the thread function on its events.\<close>

lemma waiting_has_room:
  assumes "socket_thread_loop nd unpack log buf n evs s = Inr (Waiting, b, n', s')"
  shows "n' \<noteq> MAX_BUFFER_SIZE"
  using socket_thread_loop_append [of nd unpack log buf n evs "[]" s] assms
  by (auto simp: socket_thread_loop.simps [of _ _ _ _ _ "[]"] split: if_splits)

lemma serve_disconnected:
  assumes "cn_state (cs k) = Disconnected"
  shows "serve_conns nd unpack log (map (Pair k) evs) cs s = Inr (cs, s)"
  using assms by (induction evs) (simp_all add: conn_event_def)

lemma serve_alone:
  assumes "cn_state (cs k) = Waiting" "cn_size (cs k) \<noteq> MAX_BUFFER_SIZE"
  shows "rbind (serve_conns nd unpack log (map (Pair k) evs) cs s) (\<lambda>(cs', s').
      Inr (cn_state (cs' k), cn_buf (cs' k), cn_size (cs' k), s')) =
    socket_thread_loop nd unpack log (cn_buf (cs k)) (cn_size (cs k)) evs s"
  using assms
proof (induction evs arbitrary: cs s)
  case Nil
  then show ?case by (simp add: socket_thread_loop.simps [of _ _ _ _ _ "[]"])
next
  case (Cons ev evs)
  show ?case
  proof (cases "socket_thread_loop nd unpack log (cn_buf (cs k)) (cn_size (cs k)) [ev] s")
    case (Inl e)
    then show ?thesis
      using Cons.prems(1) socket_thread_loop_append [of nd unpack log "cn_buf (cs k)" "cn_size (cs k)" "[ev]" evs s]
      by (simp add: conn_event_def)
  next
    case (Inr x)
    obtain st b n s' where x: "x = (st, b, n, s')" by (cases x)
    let ?cs = "cs(k := \<lparr>cn_state = st, cn_buf = b, cn_size = n\<rparr>)"
    have run: "serve_conns nd unpack log (map (Pair k) (ev # evs)) cs s =
        serve_conns nd unpack log (map (Pair k) evs) ?cs s'"
      using Cons.prems Inr x by (simp add: conn_event_def)
    have loop: "socket_thread_loop nd unpack log (cn_buf (cs k)) (cn_size (cs k)) (ev # evs) s =
        (if st = Waiting then socket_thread_loop nd unpack log b n evs s' else Inr (st, b, n, s'))"
      using socket_thread_loop_append [of nd unpack log "cn_buf (cs k)" "cn_size (cs k)" "[ev]" evs s] Inr x by simp
    show ?thesis
    proof (cases st)
      case Waiting
      have "n \<noteq> MAX_BUFFER_SIZE" by (rule waiting_has_room) (use Inr x Waiting in simp)
      with Cons.IH [of ?cs s'] Waiting show ?thesis unfolding run loop by (simp del: fun_upd_apply add: fun_upd_same)
    next
      case Disconnected
      then have "cn_state (?cs k) = Disconnected" by simp
      from serve_disconnected [of ?cs k nd unpack log evs s', OF this] Disconnected
      show ?thesis unfolding run loop by simp
    qed
  qed
qed

section \<open>What the loggers see\<close>

text \<open>The bytes of connection \<open>k\<close>.\<close>

definition data_of :: "nat \<Rightarrow> (nat \<times> sock_event) list \<Rightarrow> u8 list" where
  "data_of k evs = concat (map (\<lambda>(j, ev). case ev of Sock_Data bs \<Rightarrow> if j = k then bs else [] | _ \<Rightarrow> []) evs)"

lemma data_of_simps [simp]:
  "data_of k [] = []"
  "data_of k ((j, Sock_Data bs) # evs) = (if j = k then bs @ data_of k evs else data_of k evs)"
  by (simp_all add: data_of_def)

text \<open>A thread between two reads: it waits, and its buffer begins with an incomplete frame \<open>r\<close>.\<close>

definition holding :: "u8 list \<Rightarrow> conn \<Rightarrow> bool" where
  "holding r c \<longleftrightarrow>
     cn_state c = Waiting \<and> length (cn_buf c) = MAX_BUFFER_SIZE \<and> cn_size c = length r \<and>
     take (length r) (cn_buf c) = r \<and> split_frames r = ([], r)"

lemma frames_fit_prefix: "frames_fit (xs @ ys) \<Longrightarrow> frames_fit xs"
proof (induction xs rule: split_frames.induct)
  case (1 xs)
  show ?case
  proof (cases "length xs < 2 \<or> length xs < hdr xs + 2")
    case True
    then show ?thesis
      using "1.prems" by (cases "length xs < 2") (auto simp: frames_fit.simps [of xs] frames_fit.simps [of "xs @ ys"] hdr_append)
  next
    case False
    then have "frames_fit (drop (hdr xs + 2) xs @ ys)" "hdr xs + 2 \<le> MAX_BUFFER_SIZE"
      using "1.prems" by (auto simp: frames_fit.simps [of "xs @ ys"] hdr_append)
    with "1.IH" False show ?thesis by (simp add: frames_fit.simps [of xs])
  qed
qed

lemma conn_event_data:
  assumes "holding r c" "bs \<noteq> []" "frames_fit (r @ bs)" "split_frames (r @ bs) = (ps, r')"
  shows "\<exists>c'. holding r' c' \<and> (\<forall>s. conn_event nd unpack log (Sock_Data bs) c s =
    rbind (rfold (handle_frame nd unpack log) ps s) (\<lambda>s'. Inr (c', s')))"
proof -
  have h: "length (cn_buf c) = MAX_BUFFER_SIZE" "take (length r) (cn_buf c) = r" "split_frames r = ([], r)"
    "cn_state c = Waiting" "cn_size c = length r"
    using assms(1) by (simp_all add: holding_def)
  obtain b where b: "length b = MAX_BUFFER_SIZE" "take (length r') b = r'"
    "\<And>s. socket_thread_loop nd unpack log (cn_buf c) (length r) [Sock_Data bs] s =
       rbind (rfold (handle_frame nd unpack log) ps s) (socket_thread_loop nd unpack log b (length r') [])"
    using thread_loop_segments [OF h(1-3), of "[bs]" ps r' nd unpack log "[]"] assms(2-4) by auto
  have "length r' < MAX_BUFFER_SIZE" using frames_fit_room [OF assms(4), of "[]"] assms(3) by simp
  then have "conn_event nd unpack log (Sock_Data bs) c s =
      rbind (rfold (handle_frame nd unpack log) ps s)
        (\<lambda>s'. Inr (\<lparr>cn_state = Waiting, cn_buf = b, cn_size = length r'\<rparr>, s'))" for s
    using h(4,5) b(3) [of s]
    by (simp add: conn_event_def rbind_assoc socket_thread_loop.simps [of _ _ _ _ _ "[]"])
  moreover have "split_frames r' = ([], r')"
    using split_frames_rest [OF assms(4)] by (rule split_frames_short)
  ultimately show ?thesis
    using b(1,2) by (intro exI [of _ "\<lparr>cn_state = Waiting, cn_buf = b, cn_size = length r'\<rparr>"]) (simp add: holding_def)
qed

lemma serve_conns_merge:
  assumes "\<And>k. holding (r k) (cs k)" "\<And>j ev. (j, ev) \<in> set evs \<Longrightarrow> \<exists>bs. ev = Sock_Data bs \<and> bs \<noteq> []"
    and "\<And>k. frames_fit (r k @ data_of k evs)"
  shows "\<exists>zs cs'.
    (\<forall>s. serve_conns nd unpack log evs cs s =
       rbind (rfold (handle_frame nd unpack log) (map snd zs) s) (\<lambda>s'. Inr (cs', s'))) \<and>
    (\<forall>k. split_frames (r k @ data_of k evs) =
       (map snd (filter (\<lambda>z. fst z = k) zs), take (cn_size (cs' k)) (cn_buf (cs' k))) \<and>
       cn_state (cs' k) = Waiting)"
  using assms
proof (induction evs arbitrary: r cs)
  case Nil
  show ?case
    using Nil.prems(1) by (intro exI [of _ "[]"] exI [of _ cs]) (auto simp: holding_def)
next
  case (Cons x evs)
  obtain k bs where x: "x = (k, Sock_Data bs)" "bs \<noteq> []" using Cons.prems(2) by (cases x) fastforce
  obtain ps r1 where sp: "split_frames (r k @ bs) = (ps, r1)" by fastforce
  have fit: "frames_fit ((r k @ bs) @ data_of k evs)" using Cons.prems(3) [of k] x by simp
  then have "frames_fit (r k @ bs)" by (rule frames_fit_prefix)
  then obtain c where c: "holding r1 c" "\<And>s. conn_event nd unpack log (Sock_Data bs) (cs k) s =
      rbind (rfold (handle_frame nd unpack log) ps s) (\<lambda>s'. Inr (c, s'))"
    using conn_event_data [OF Cons.prems(1) x(2) _ sp] by blast
  have "holding ((r(k := r1)) j) ((cs(k := c)) j)" for j using Cons.prems(1) c(1) by simp
  moreover have "frames_fit ((r(k := r1)) j @ data_of j evs)" for j
    using Cons.prems(3) [of j] x frames_fit_rest [OF sp fit] by auto
  ultimately obtain zs cs' where zs: "\<And>s. serve_conns nd unpack log evs (cs(k := c)) s =
      rbind (rfold (handle_frame nd unpack log) (map snd zs) s) (\<lambda>s'. Inr (cs', s'))"
    "\<And>j. split_frames ((r(k := r1)) j @ data_of j evs) =
       (map snd (filter (\<lambda>z. fst z = j) zs), take (cn_size (cs' j)) (cn_buf (cs' j))) \<and> cn_state (cs' j) = Waiting"
    using Cons.IH [of "r(k := r1)" "cs(k := c)"] Cons.prems(2) by (metis list.set_intros(2))
  let ?zs = "map (Pair k) ps @ zs"
  have own: "filter (\<lambda>z. fst z = j) (map (Pair k) ps) = (if j = k then map (Pair k) ps else [])" for j
    by (induction ps) auto
  have "serve_conns nd unpack log (x # evs) cs s =
      rbind (rfold (handle_frame nd unpack log) (map snd ?zs) s) (\<lambda>s'. Inr (cs', s'))" for s
    using x c(2) zs(1) by (simp add: rbind_assoc rfold_append comp_def)
  moreover have "split_frames (r j @ data_of j (x # evs)) =
      (map snd (filter (\<lambda>z. fst z = j) ?zs), take (cn_size (cs' j)) (cn_buf (cs' j))) \<and> cn_state (cs' j) = Waiting" for j
    using zs(2) [of j] split_frames_append [OF sp, of "data_of k evs"] x own [of j]
    by (cases "j = k") (auto simp: comp_def)
  ultimately show ?case by blast
qed

lemma fresh_conns_merge:
  assumes "\<forall>k. cn_state (cs k) = Waiting \<and> length (cn_buf (cs k)) = MAX_BUFFER_SIZE \<and> cn_size (cs k) = 0"
    and "\<forall>(j, ev) \<in> set evs. \<exists>bs. ev = Sock_Data bs \<and> bs \<noteq> []" "\<forall>k. frames_fit (data_of k evs)"
  shows "\<exists>zs cs'.
    (\<forall>s. serve_conns nd unpack log evs cs s =
       rbind (rfold (handle_frame nd unpack log) (map snd zs) s) (\<lambda>s'. Inr (cs', s'))) \<and>
    (\<forall>k. split_frames (data_of k evs) =
       (map snd (filter (\<lambda>z. fst z = k) zs), take (cn_size (cs' k)) (cn_buf (cs' k))) \<and>
       cn_state (cs' k) = Waiting)"
proof -
  have "holding [] (cs k)" for k using assms(1) by (simp add: holding_def)
  moreover have "\<exists>bs. ev = Sock_Data bs \<and> bs \<noteq> []" if "(j, ev) \<in> set evs" for j ev using assms(2) that by blast
  moreover have "frames_fit ([] @ data_of k evs)" for k using assms(3) by simp
  ultimately show ?thesis using serve_conns_merge [of "\<lambda>k. []" cs evs nd unpack log] by simp
qed

lemma merged_frames:
  assumes "\<forall>k. cn_state (cs k) = Waiting \<and> length (cn_buf (cs k)) = MAX_BUFFER_SIZE \<and> cn_size (cs k) = 0"
    and "\<forall>(j, ev) \<in> set evs. \<exists>bs. ev = Sock_Data bs \<and> bs \<noteq> []" "\<forall>k. frames_fit (data_of k evs)"
  shows "\<exists>zs cs'.
    (\<forall>s. serve_conns nd unpack log evs cs s =
       rbind (rfold (handle_frame nd unpack log) (map snd zs) s) (\<lambda>s'. Inr (cs', s'))) \<and>
    (\<forall>k. map snd (filter (\<lambda>z. fst z = k) zs) = fst (split_frames (data_of k evs)))"
  using fresh_conns_merge [OF assms, of nd unpack log] by (metis fst_conv)



end
