(* ===== verification/Shipped_Config.thy ===== *)
theory Shipped_Config
  imports Sqlite Syslog
begin

text \<open>
  The configuration file the package installs, \<^verbatim>\<open>config/pdns-logger.ini.in\<close> (the build copies it without
  substitutions), read by the four readers of the program.
\<close>

section \<open>The file\<close>

definition shipped_lines :: "string list" where
  "shipped_lines = [
     ''; Please add something like this:'',
     '';  protobufServer('' @ [CHR 0x22] @ ''127.0.0.1:4242'' @ [CHR 0x22] @ '', 2, 100, 1, 32, 128, false, true)'',
     ''; to the LUA configuration file of the recursor.'',
     ''; Note that the last parameter is supported only in 4.1.0 or later.'',
     ''; Remove it if you'' @ [CHR 0x27] @ ''re using a previous version of the recursor'',
     [],
     ''[globals]'',
     ''allow-root=0'',
     ''bind-ip=127.0.0.1'',
     ''bind-port=4242'',
     '';foreground=0            ; If set, this will override the CLI -f option'',
     [],
     [],
     ''[logfile]'',
     ''disabled = 0            ; should we disable the log-to-file backend ?'',
     ''only-rewrites=1         ; log only RPZ rewrites'',
     ''                        ; what is the path of our log file ?'',
     ''logfile=/var/log/pdns-logger/pdns.log'',
     ''force-flush=1           ; flush buffers to disk at each query'',
     [],
     [],
     ''[syslog]'',
     ''disabled = 1            ; Should we disable the syslog backend ?'',
     ''only-rewrites=1         ; log only RPZ rewrites'',
     ''ident=pdns-logger       ; the syslog ident'',
     ''facility=syslog         ; the log facility'',
     [],
     [],
     ''[sqlite3]'',
     ''disabled = 1;           ; should we disable the sqlite3 backend ?'',
     ''only-rewrites=1         ; log only RPZ rewrites'',
     ''                        ; what is the path to our sqlite3 database ?'',
     ''dbfile=/var/lib/pdns-logger/queries.db'',
     ''autocommit=1            ; should the backend commit to file for every record ?'',
     [],
     ''; NOTES:'',
     '';'',
     ''; When configuring the recursor with the protobufServer() function, the taggedOnly parameter'',
     ''; works only for 4.1.0 and later versions. This will affect the logger setting '' @ [CHR 0x27] @ ''only-rewrites'' @ [CHR 0x27],
     ''; which will become basically useless.'']"

definition shipped_ini :: string where
  "shipped_ini = concat (map (\<lambda>l. l @ [newline]) shipped_lines)"

section \<open>Its settings\<close>

lemma split_plain_lines:
  "list_all (\<lambda>l. plain_text l \<and> length l < INI_MAX_LINE - 1) ls \<Longrightarrow>
   split_lines (concat (map (\<lambda>l. l @ [newline]) ls)) = map (\<lambda>l. l @ [newline]) ls"
proof (induction ls)
  case (Cons l ls)
  then show ?case using split_lines_Cons [of l "concat (map (\<lambda>l. l @ [newline]) ls)"] by simp
qed simp

lemma shipped_split: "split_lines shipped_ini = map (\<lambda>l. l @ [newline]) shipped_lines"
  unfolding shipped_ini_def
  by (rule split_plain_lines) (simp add: shipped_lines_def plain_text_def INI_MAX_LINE_def)

lemmas ini_eval =
  ini_init_def ini_line_def line_start_def has_bom_def Let_def rstrip_eq lskip_eq isspace_def parse_pair_def
  parse_section_def find_chars_or_comment_def before_def strncpy0_def call_handler_def record_handler_def
  note_error_def MAX_SECTION_def MAX_NAME_def

definition without_line :: "ini_event \<Rightarrow> string \<times> string \<times> string" where
  "without_line e = (case e of (s, n, v, l) \<Rightarrow> (s, n, v))"

lemma section_settings_events:
  "section_settings sec file =
     map snd (filter (\<lambda>e. fst e = sec) (map without_line (ini_events file)))"
proof -
  have "[(n, v). (s, n, v, l) \<leftarrow> evs, s = sec] = map snd (filter (\<lambda>e. fst e = sec) (map without_line evs))" for evs
    by (induction evs) (auto simp: without_line_def)
  then show ?thesis by (simp add: section_settings_def)
qed

lemma shipped_scan:
  "map without_line (ini_events shipped_ini) = [
     (''globals'', ''allow-root'', ''0''), (''globals'', ''bind-ip'', ''127.0.0.1''),
     (''globals'', ''bind-port'', ''4242''),
     (''logfile'', ''disabled'', ''0''), (''logfile'', ''only-rewrites'', ''1''),
     (''logfile'', ''logfile'', ''/var/log/pdns-logger/pdns.log''), (''logfile'', ''force-flush'', ''1''),
     (''syslog'', ''disabled'', ''1''), (''syslog'', ''only-rewrites'', ''1''),
     (''syslog'', ''ident'', ''pdns-logger''), (''syslog'', ''facility'', ''syslog''),
     (''sqlite3'', ''disabled'', ''1;''), (''sqlite3'', ''only-rewrites'', ''1''),
     (''sqlite3'', ''dbfile'', ''/var/lib/pdns-logger/queries.db''), (''sqlite3'', ''autocommit'', ''1'')]"
  "ini_syntax_error shipped_ini = 0"
proof -
  have "map without_line (ini_user (ini_scan (split_lines shipped_ini))) = [
     (''globals'', ''allow-root'', ''0''), (''globals'', ''bind-ip'', ''127.0.0.1''),
     (''globals'', ''bind-port'', ''4242''),
     (''logfile'', ''disabled'', ''0''), (''logfile'', ''only-rewrites'', ''1''),
     (''logfile'', ''logfile'', ''/var/log/pdns-logger/pdns.log''), (''logfile'', ''force-flush'', ''1''),
     (''syslog'', ''disabled'', ''1''), (''syslog'', ''only-rewrites'', ''1''),
     (''syslog'', ''ident'', ''pdns-logger''), (''syslog'', ''facility'', ''syslog''),
     (''sqlite3'', ''disabled'', ''1;''), (''sqlite3'', ''only-rewrites'', ''1''),
     (''sqlite3'', ''dbfile'', ''/var/lib/pdns-logger/queries.db''), (''sqlite3'', ''autocommit'', ''1'')] \<and>
    ini_error (ini_scan (split_lines shipped_ini)) = 0"
    unfolding shipped_split shipped_lines_def ini_scan_def by (simp add: ini_eval without_line_def)
  then show "map without_line (ini_events shipped_ini) = [
     (''globals'', ''allow-root'', ''0''), (''globals'', ''bind-ip'', ''127.0.0.1''),
     (''globals'', ''bind-port'', ''4242''),
     (''logfile'', ''disabled'', ''0''), (''logfile'', ''only-rewrites'', ''1''),
     (''logfile'', ''logfile'', ''/var/log/pdns-logger/pdns.log''), (''logfile'', ''force-flush'', ''1''),
     (''syslog'', ''disabled'', ''1''), (''syslog'', ''only-rewrites'', ''1''),
     (''syslog'', ''ident'', ''pdns-logger''), (''syslog'', ''facility'', ''syslog''),
     (''sqlite3'', ''disabled'', ''1;''), (''sqlite3'', ''only-rewrites'', ''1''),
     (''sqlite3'', ''dbfile'', ''/var/lib/pdns-logger/queries.db''), (''sqlite3'', ''autocommit'', ''1'')]"
    "ini_syntax_error shipped_ini = 0"
    by (simp_all add: ini_events_def ini_syntax_error_def)
qed

lemma atoi_values: "atoi ''0'' = 0" "atoi ''1'' = 1" "atoi ''1;'' = 1" "atoi ''4242'' = 4242"
  by (simp_all add: atoi_def strtol10_def isspace_def isdigit_def Let_def signed_take_bit_int_eq_self)

lemma shipped_sections:
  "section_settings ''globals'' shipped_ini =
     [(''allow-root'', ''0''), (''bind-ip'', ''127.0.0.1''), (''bind-port'', ''4242'')]"
  "section_settings ''logfile'' shipped_ini =
     [(''disabled'', ''0''), (''only-rewrites'', ''1''), (''logfile'', ''/var/log/pdns-logger/pdns.log''), (''force-flush'', ''1'')]"
  "section_settings ''syslog'' shipped_ini =
     [(''disabled'', ''1''), (''only-rewrites'', ''1''), (''ident'', ''pdns-logger''), (''facility'', ''syslog'')]"
  "section_settings ''sqlite3'' shipped_ini =
     [(''disabled'', ''1;''), (''only-rewrites'', ''1''), (''dbfile'', ''/var/lib/pdns-logger/queries.db''), (''autocommit'', ''1'')]"
  by (simp_all add: section_settings_events shipped_scan)

text \<open>
  C33. The shipped configuration, read by the program: no reader finds an error; the daemon would listen
  on port 4242 in the background; the log file is \<^verbatim>\<open>/var/log/pdns-logger/pdns.log\<close>, rewrites only and
  flushed after every line, opened for appending when it can be; syslog and SQLite are off and
  leave the system log, the queue and the database alone.
\<close>

theorem shipped_configuration:
  "parse_config_file [''pdns-logger.ini'' \<mapsto> shipped_ini] (Some ''pdns-logger.ini'') globals_zero =
     Some (PDNS_OK, globals_zero\<lparr>bind_ip := Some ''127.0.0.1'', bind_port := 4242\<rparr>) \<and>
   logfile_init [''pdns-logger.ini'' \<mapsto> shipped_ini] (Some ''pdns-logger.ini'') (logfile_static d) =
     (case fopen_append ''/var/log/pdns-logger/pdns.log'' d of (p, d') \<Rightarrow>
        Some (if p = Fp_Null then PDNS_NO else PDNS_OK,
              \<lparr>fp = p, lf_file = Some ''/var/log/pdns-logger/pdns.log'', force_flush = True,
               lf_rewrites_only = True, lf_disabled = False, lf_disk = d'\<rparr>)) \<and>
   syslog_init [''pdns-logger.ini'' \<mapsto> shipped_ini] (Some ''pdns-logger.ini'') syslog_static =
     Some (PDNS_OK, syslog_static\<lparr>sys_disabled := True\<rparr>) \<and>
   logsqlite_init api alloc [''pdns-logger.ini'' \<mapsto> shipped_ini] (Some ''pdns-logger.ini'') (logsqlite_static w) =
     Some (PDNS_OK, (logsqlite_static w)\<lparr>sq_disabled := True, dbfile := Some ''/var/lib/pdns-logger/queries.db''\<rparr>)"
proof (intro conjI)
  show "parse_config_file [''pdns-logger.ini'' \<mapsto> shipped_ini] (Some ''pdns-logger.ini'') globals_zero =
     Some (PDNS_OK, globals_zero\<lparr>bind_ip := Some ''127.0.0.1'', bind_port := 4242\<rparr>)"
    by (simp add: parse_config_file_def ini_parse_def globals_ini.parse_file_own section_settings_def [symmetric]
        shipped_scan shipped_sections set_global_def atoi_values globals_zero_def)
  show "logfile_init [''pdns-logger.ini'' \<mapsto> shipped_ini] (Some ''pdns-logger.ini'') (logfile_static d) =
     (case fopen_append ''/var/log/pdns-logger/pdns.log'' d of (p, d') \<Rightarrow>
        Some (if p = Fp_Null then PDNS_NO else PDNS_OK,
              \<lparr>fp = p, lf_file = Some ''/var/log/pdns-logger/pdns.log'', force_flush = True,
               lf_rewrites_only = True, lf_disabled = False, lf_disk = d'\<rparr>))"
  proof -
    let ?s = "\<lparr>fp = Fp_Null, lf_file = Some ''/var/log/pdns-logger/pdns.log'', force_flush = True,
      lf_rewrites_only = True, lf_disabled = False, lf_disk = d\<rparr>"
    have s: "?s = fold (\<lambda>(n, v). set_logfile n v) (section_settings ''logfile'' shipped_ini) (logfile_static d)"
      by (simp add: shipped_sections set_logfile_def atoi_values logfile_static_def)
    from logfile_init_file [OF _ _ shipped_scan(2) s, of "''pdns-logger.ini''" "[''pdns-logger.ini'' \<mapsto> shipped_ini]"] show ?thesis
      by (cases "fopen_append ''/var/log/pdns-logger/pdns.log'' d") simp
  qed
  show "syslog_init [''pdns-logger.ini'' \<mapsto> shipped_ini] (Some ''pdns-logger.ini'') syslog_static =
     Some (PDNS_OK, syslog_static\<lparr>sys_disabled := True\<rparr>)"
    by (simp add: syslog_init_def ini_parse_def syslog_ini.parse_file_own section_settings_def [symmetric]
        shipped_scan shipped_sections set_syslog_def atoi_values syslog_static_def)
  show "logsqlite_init api alloc [''pdns-logger.ini'' \<mapsto> shipped_ini] (Some ''pdns-logger.ini'') (logsqlite_static w) =
     Some (PDNS_OK, (logsqlite_static w)\<lparr>sq_disabled := True, dbfile := Some ''/var/lib/pdns-logger/queries.db''\<rparr>)"
  proof -
    let ?s = "(logsqlite_static w)\<lparr>sq_disabled := True, dbfile := Some ''/var/lib/pdns-logger/queries.db''\<rparr>"
    have s: "?s = fold (\<lambda>(n, v). set_sqlite n v) (section_settings ''sqlite3'' shipped_ini) (logsqlite_static w)"
      by (simp add: shipped_sections set_sqlite_def atoi_values logsqlite_static_def)
    from logsqlite_init_file [OF _ _ shipped_scan(2) s, of "''pdns-logger.ini''" "[''pdns-logger.ini'' \<mapsto> shipped_ini]"] show ?thesis by simp
  qed
qed

end
