(* ===== verification/Pb_Objects.thy ===== *)
theory Pb_Objects
  imports Pb_Message Pb_Descriptors Protobuf_Stream
begin

text \<open>
  Messages as libprotobuf-c sees them, the rest of \<^verbatim>\<open>src/dnsmessage.pb-c.c\<close>: structures whose
  members are reached through the offsets of the descriptor tables, and objects that start with a
  pointer to their descriptor, which the generated functions check. The tables fit the structures of
  \<^verbatim>\<open>src/dnsmessage.pb-c.h\<close>, and a connection gives every message back to the library.
\<close>

section \<open>Members of the structures\<close>

text \<open>
  The members by name, in the order of the header, with a value of their C type: a flag, a count, a
  number, an enumeration, a string, binary data, a pointer to a message (NULL or the members behind
  it), an array of strings or of messages.
\<close>

datatype pb_value =
    V_Flag bool
  | V_Count nat
  | V_Uint32 u32
  | V_Uint64 u64
  | V_Enum pb_enum
  | V_String cstring
  | V_Bytes binary_data
  | V_Message "(string \<times> pb_value) list option"
  | V_Strings "string list"
  | V_Messages "(string \<times> pb_value) list list"

type_synonym pb_members = "(string \<times> pb_value) list"

definition question_members :: "dnsquestion \<Rightarrow> pb_members" where
  "question_members q = [
     (''qname'', V_String (q_qname q)),
     (''has_qtype'', V_Flag (q_has_qtype q)), (''qtype'', V_Uint32 (q_qtype q)),
     (''has_qclass'', V_Flag (q_has_qclass q)), (''qclass'', V_Uint32 (q_qclass q))]"

definition rr_members :: "dnsrr \<Rightarrow> pb_members" where
  "rr_members rr = [
     (''name'', V_String (rr_name rr)),
     (''has_type'', V_Flag (rr_has_type rr)), (''type'', V_Uint32 (rr_type rr)),
     (''has_class_'', V_Flag (rr_has_class rr)), (''class_'', V_Uint32 (rr_class rr)),
     (''has_ttl'', V_Flag (rr_has_ttl rr)), (''ttl'', V_Uint32 (rr_ttl rr)),
     (''has_rdata'', V_Flag (rr_has_rdata rr)), (''rdata'', V_Bytes (rr_rdata rr))]"

definition response_members :: "dnsresponse \<Rightarrow> pb_members" where
  "response_members r = [
     (''has_rcode'', V_Flag (r_has_rcode r)), (''rcode'', V_Uint32 (r_rcode r)),
     (''n_rrs'', V_Count (length (r_rrs r))), (''rrs'', V_Messages (map rr_members (r_rrs r))),
     (''appliedpolicy'', V_String (r_appliedpolicy r)),
     (''n_tags'', V_Count (length (r_tags r))), (''tags'', V_Strings (r_tags r)),
     (''has_querytimesec'', V_Flag (r_has_querytimesec r)), (''querytimesec'', V_Uint32 (r_querytimesec r)),
     (''has_querytimeusec'', V_Flag (r_has_querytimeusec r)), (''querytimeusec'', V_Uint32 (r_querytimeusec r))]"

definition message_members :: "pbdnsmessage \<Rightarrow> pb_members" where
  "message_members m = [
     (''type'', V_Enum (m_type m)),
     (''has_messageid'', V_Flag (m_has_messageid m)), (''messageid'', V_Bytes (m_messageid m)),
     (''has_serveridentity'', V_Flag (m_has_serveridentity m)), (''serveridentity'', V_Bytes (m_serveridentity m)),
     (''has_socketfamily'', V_Flag (m_has_socketfamily m)), (''socketfamily'', V_Enum (m_socketfamily m)),
     (''has_socketprotocol'', V_Flag (m_has_socketprotocol m)), (''socketprotocol'', V_Enum (m_socketprotocol m)),
     (''has_from'', V_Flag (m_has_from m)), (''from'', V_Bytes (m_from m)),
     (''has_to'', V_Flag (m_has_to m)), (''to'', V_Bytes (m_to m)),
     (''has_inbytes'', V_Flag (m_has_inbytes m)), (''inbytes'', V_Uint64 (m_inbytes m)),
     (''has_timesec'', V_Flag (m_has_timesec m)), (''timesec'', V_Uint32 (m_timesec m)),
     (''has_timeusec'', V_Flag (m_has_timeusec m)), (''timeusec'', V_Uint32 (m_timeusec m)),
     (''has_id'', V_Flag (m_has_id m)), (''id'', V_Uint32 (m_id m)),
     (''question'', V_Message (map_option question_members (m_question m))),
     (''response'', V_Message (map_option response_members (m_response m))),
     (''has_originalrequestorsubnet'', V_Flag (m_has_originalrequestorsubnet m)),
     (''originalrequestorsubnet'', V_Bytes (m_originalrequestorsubnet m)),
     (''requestorid'', V_String (m_requestorid m)),
     (''has_initialrequestid'', V_Flag (m_has_initialrequestid m)),
     (''initialrequestid'', V_Bytes (m_initialrequestid m))]"

section \<open>Typing\<close>

text \<open>The descriptor a table entry points to.\<close>

definition message_descriptors :: "(string \<times> message_descriptor) list" where
  "message_descriptors = [
     (''pbdnsmessage__dnsquestion__descriptor'', pbdnsmessage__dnsquestion__descriptor),
     (''pbdnsmessage__dnsresponse__descriptor'', pbdnsmessage__dnsresponse__descriptor),
     (''pbdnsmessage__dnsresponse__dnsrr__descriptor'', pbdnsmessage__dnsresponse__dnsrr__descriptor),
     (''pbdnsmessage__descriptor'', pbdnsmessage__descriptor)]"

text \<open>The members a table entry names: its own and, where it has one, its quantifier.\<close>

definition entry_members :: "field_descriptor \<Rightarrow> string list" where
  "entry_members f = (case fd_quantifier f of None \<Rightarrow> [] | Some q \<Rightarrow> [q]) @ [fd_member f]"

text \<open>
  At the member of an entry there is a value of the entry's type, or for a repeated entry an array
  of them; \<open>sub\<close> says what the messages inside have to fit.
\<close>

definition value_fits :: "(message_descriptor \<Rightarrow> pb_members \<Rightarrow> bool) \<Rightarrow> field_descriptor \<Rightarrow> pb_members \<Rightarrow> bool" where
  "value_fits sub f ms =
     (let inner = (\<lambda>ms'. case Option.bind (fd_descriptor f) (map_of message_descriptors) of None \<Rightarrow> False | Some d \<Rightarrow> sub d ms')
      in case map_of ms (fd_member f) of
        Some (V_Uint32 x) \<Rightarrow> fd_type f = T_Uint32 \<and> fd_label f \<noteq> Repeated
      | Some (V_Uint64 x) \<Rightarrow> fd_type f = T_Uint64 \<and> fd_label f \<noteq> Repeated
      | Some (V_Enum x) \<Rightarrow> fd_type f = T_Enum \<and> fd_label f \<noteq> Repeated
      | Some (V_Bytes x) \<Rightarrow> fd_type f = T_Bytes \<and> fd_label f \<noteq> Repeated
      | Some (V_String x) \<Rightarrow> fd_type f = T_String \<and> fd_label f \<noteq> Repeated
      | Some (V_Strings xs) \<Rightarrow> fd_type f = T_String \<and> fd_label f = Repeated
      | Some (V_Message x) \<Rightarrow>
          fd_type f = T_Message \<and> fd_label f \<noteq> Repeated \<and> (case x of None \<Rightarrow> True | Some ms' \<Rightarrow> inner ms')
      | Some (V_Messages xs) \<Rightarrow> fd_type f = T_Message \<and> fd_label f = Repeated \<and> list_all inner xs
      | _ \<Rightarrow> False)"

text \<open>
  An optional number, enumeration or binary data has a flag, a repeated entry the count of its
  array, and nothing else has a quantifier.
\<close>

definition quantifier_fits :: "field_descriptor \<Rightarrow> pb_members \<Rightarrow> bool" where
  "quantifier_fits f ms =
     (case fd_quantifier f of
        None \<Rightarrow> fd_label f = Required \<or> fd_label f = Optional \<and> fd_type f \<in> {T_String, T_Message}
      | Some q \<Rightarrow>
          (case map_of ms q of
             Some (V_Flag b) \<Rightarrow> fd_label f = Optional \<and> fd_type f \<notin> {T_String, T_Message}
           | Some (V_Count c) \<Rightarrow>
               fd_label f = Repeated \<and>
               (case map_of ms (fd_member f) of
                  Some (V_Strings xs) \<Rightarrow> c = length xs
                | Some (V_Messages xs) \<Rightarrow> c = length xs
                | _ \<Rightarrow> False)
           | _ \<Rightarrow> False))"

text \<open>
  \<open>fits n d ms\<close>: the table \<open>d\<close> describes the structure with the members \<open>ms\<close>, down to \<open>n\<close> levels of
  messages inside messages: its entries name every member exactly once, and values and quantifiers
  fit.
\<close>

primrec fits :: "nat \<Rightarrow> message_descriptor \<Rightarrow> pb_members \<Rightarrow> bool" where
  "fits 0 d ms = False"
| "fits (Suc n) d ms =
     (let names = concat (map entry_members (md_fields d))
      in distinct names \<and> distinct (map fst ms) \<and> set names = set (map fst ms) \<and>
         list_all (\<lambda>f. value_fits (fits n) f ms \<and> quantifier_fits f ms) (md_fields d))"

lemmas fits_defs = entry_members_def value_fits_def quantifier_fits_def message_descriptors_def Let_def field_def

lemma question_fits: "fits (Suc n) pbdnsmessage__dnsquestion__descriptor (question_members q)"
  by (auto simp: fits_defs pbdnsmessage__dnsquestion__descriptor_def pbdnsmessage__dnsquestion__field_descriptors_def question_members_def)

lemma rr_fits: "fits (Suc n) pbdnsmessage__dnsresponse__dnsrr__descriptor (rr_members rr)"
  by (auto simp: fits_defs pbdnsmessage__dnsresponse__dnsrr__descriptor_def pbdnsmessage__dnsresponse__dnsrr__field_descriptors_def
      rr_members_def)

lemma response_fits: "fits (Suc (Suc n)) pbdnsmessage__dnsresponse__descriptor (response_members r)"
proof -
  have "list_all (fits (Suc n) pbdnsmessage__dnsresponse__dnsrr__descriptor) (map rr_members rrs)" for rrs
    using rr_fits [of n] by (induction rrs) (simp_all del: fits.simps)
  then show ?thesis
    unfolding fits.simps(2) [of "Suc n"]
    by (auto simp del: fits.simps simp: fits_defs pbdnsmessage__dnsresponse__descriptor_def
        pbdnsmessage__dnsresponse__field_descriptors_def response_members_def)
qed


section \<open>Objects\<close>

text \<open>A structure begins with \<^verbatim>\<open>ProtobufCMessage base\<close>, which points to the descriptor of its kind.\<close>

record 'm pb_object =
  base_descriptor :: message_descriptor
  pb_contents :: 'm

definition pbdnsmessage__dnsquestion__init_object :: "dnsquestion pb_object \<Rightarrow> dnsquestion pb_object" where
  "pbdnsmessage__dnsquestion__init_object message =
     message\<lparr>base_descriptor := pbdnsmessage__dnsquestion__descriptor, pb_contents := pbdnsmessage__dnsquestion__init\<rparr>"

definition pbdnsmessage__dnsresponse__dnsrr__init_object :: "dnsrr pb_object \<Rightarrow> dnsrr pb_object" where
  "pbdnsmessage__dnsresponse__dnsrr__init_object message =
     message\<lparr>base_descriptor := pbdnsmessage__dnsresponse__dnsrr__descriptor, pb_contents := pbdnsmessage__dnsresponse__dnsrr__init\<rparr>"

definition pbdnsmessage__dnsresponse__init_object :: "dnsresponse pb_object \<Rightarrow> dnsresponse pb_object" where
  "pbdnsmessage__dnsresponse__init_object message =
     message\<lparr>base_descriptor := pbdnsmessage__dnsresponse__descriptor, pb_contents := pbdnsmessage__dnsresponse__init\<rparr>"

definition pbdnsmessage__init_object :: "pbdnsmessage pb_object \<Rightarrow> pbdnsmessage pb_object" where
  "pbdnsmessage__init_object message =
     message\<lparr>base_descriptor := pbdnsmessage__descriptor, pb_contents := pbdnsmessage__init\<rparr>"

text \<open>
  \<^verbatim>\<open>assert(message->base.descriptor == &pbdnsmessage__descriptor)\<close>: without \<^verbatim>\<open>NDEBUG\<close> it also reads
  through the pointer. Two tables are the same table when they have the same contents: no two of the
  file agree.
\<close>

definition assert_descriptor :: "bool \<Rightarrow> 'm pb_object option \<Rightarrow> unit res" where
  "assert_descriptor nd message =
     (if nd then Inr ()
      else case message of
        None \<Rightarrow> Inl Null_Deref
      | Some m \<Rightarrow> if base_descriptor m = pbdnsmessage__descriptor then Inr () else Inl Assert_Failed)"

text \<open>
  The generated functions hand over to the library, whose functions are the parameters: sizes, what
  packing leaves in the output, what freeing leaves of the heap.
\<close>

definition pbdnsmessage__get_packed_size :: "bool \<Rightarrow> ('m pb_object option \<Rightarrow> nat) \<Rightarrow> 'm pb_object option \<Rightarrow> nat res" where
  "pbdnsmessage__get_packed_size nd protobuf_c_message_get_packed_size message =
     rbind (assert_descriptor nd message) (\<lambda>_. Inr (protobuf_c_message_get_packed_size message))"

definition pbdnsmessage__pack ::
  "bool \<Rightarrow> ('m pb_object option \<Rightarrow> 'o \<Rightarrow> nat \<times> 'o) \<Rightarrow> 'm pb_object option \<Rightarrow> 'o \<Rightarrow> (nat \<times> 'o) res" where
  "pbdnsmessage__pack nd protobuf_c_message_pack message out =
     rbind (assert_descriptor nd message) (\<lambda>_. Inr (protobuf_c_message_pack message out))"

definition pbdnsmessage__pack_to_buffer ::
  "bool \<Rightarrow> ('m pb_object option \<Rightarrow> 'b \<Rightarrow> nat \<times> 'b) \<Rightarrow> 'm pb_object option \<Rightarrow> 'b \<Rightarrow> (nat \<times> 'b) res" where
  "pbdnsmessage__pack_to_buffer nd protobuf_c_message_pack_to_buffer message buffer =
     rbind (assert_descriptor nd message) (\<lambda>_. Inr (protobuf_c_message_pack_to_buffer message buffer))"

definition pbdnsmessage__free_unpacked ::
  "bool \<Rightarrow> ('m pb_object option \<Rightarrow> 'h \<Rightarrow> 'h) \<Rightarrow> 'm pb_object option \<Rightarrow> 'h \<Rightarrow> 'h res" where
  "pbdnsmessage__free_unpacked nd protobuf_c_message_free_unpacked message h =
     rbind (assert_descriptor nd message) (\<lambda>_. Inr (protobuf_c_message_free_unpacked message h))"

text \<open>
  What the functions check, in one lemma: they return for every build exactly when the pointer leads
  to an object of the top-level kind; an object that has just been initialised is one, objects of
  the other kinds are not.
\<close>

lemma assert_descriptor_returns:
  "(\<forall>nd. assert_descriptor nd message = Inr ()) \<longleftrightarrow>
     (case message of None \<Rightarrow> False | Some m \<Rightarrow> base_descriptor m = pbdnsmessage__descriptor)"
  by (auto simp: assert_descriptor_def split: option.splits if_splits dest: spec [of _ False])

lemma init_objects:
  "assert_descriptor nd (Some (pbdnsmessage__init_object m)) = Inr ()"
  "assert_descriptor False (Some (pbdnsmessage__dnsquestion__init_object q)) = Inl Assert_Failed"
  "assert_descriptor False (Some (pbdnsmessage__dnsresponse__init_object r)) = Inl Assert_Failed"
  "assert_descriptor False (Some (pbdnsmessage__dnsresponse__dnsrr__init_object rr)) = Inl Assert_Failed"
  by (simp_all add: assert_descriptor_def pbdnsmessage__init_object_def pbdnsmessage__dnsquestion__init_object_def
      pbdnsmessage__dnsresponse__init_object_def pbdnsmessage__dnsresponse__dnsrr__init_object_def
      pbdnsmessage__dnsquestion__descriptor_def pbdnsmessage__dnsresponse__descriptor_def
      pbdnsmessage__dnsresponse__dnsrr__descriptor_def pbdnsmessage__descriptor_def)

section \<open>Giving messages back\<close>

text \<open>
  The second half of \<^verbatim>\<open>protobuf_parse\<close>, for an object the library has unpacked: \<open>taken\<close> is what
  unpacking took from the heap. A debug build measures the message; the loggers see its contents;
  then it is freed.
\<close>

record ('m, 'h) pb_library =
  message_unpack :: "message_descriptor \<Rightarrow> u8 list \<Rightarrow> 'm pb_object option"
  taken :: "'m pb_object \<Rightarrow> 'h \<Rightarrow> 'h"
  message_free :: "'m pb_object option \<Rightarrow> 'h \<Rightarrow> 'h"
  message_size :: "'m pb_object option \<Rightarrow> nat"

definition parse_unpacked ::
  "bool \<Rightarrow> bool \<Rightarrow> ('m, 'h) pb_library \<Rightarrow> ('m \<Rightarrow> 's \<Rightarrow> 's res) \<Rightarrow> 'm pb_object \<Rightarrow> 'h \<times> 's \<Rightarrow> ('h \<times> 's) res" where
  "parse_unpacked nd debug lib log msg hs =
     (case hs of (h, s) \<Rightarrow>
        rbind (if debug then pbdnsmessage__get_packed_size nd (message_size lib) (Some msg) else Inr 0) (\<lambda>sz.
        rbind (log (pb_contents msg) s) (\<lambda>s'.
        rbind (pbdnsmessage__free_unpacked nd (message_free lib) (Some msg) (taken lib msg h)) (\<lambda>h'. Inr (h', s')))))"

text \<open>
  What \<^verbatim>\<open>protobuf-c.h\<close> documents: an unpacked message is of the kind of the descriptor given, and
  freeing it releases what unpacking took.
\<close>

definition pb_laws :: "('m, 'h) pb_library \<Rightarrow> bool" where
  "pb_laws lib \<longleftrightarrow>
     (\<forall>d bs m. message_unpack lib d bs = Some m \<longrightarrow> base_descriptor m = d) \<and>
     (\<forall>m h. message_free lib (Some m) (taken lib m h) = h)"

definition with_heap :: "'h \<Rightarrow> 'a \<times> 'b \<times> 'c \<times> 's \<Rightarrow> 'a \<times> 'b \<times> 'c \<times> 'h \<times> 's" where
  "with_heap h r = (case r of (st, b, n, s) \<Rightarrow> (st, b, n, h, s))"

lemma with_heap_simp [simp]: "with_heap h (st, b, n, s) = (st, b, n, h, s)"
  by (simp add: with_heap_def)

text \<open>The receiving side with objects and without.\<close>

definition unpack_object :: "('m, 'h) pb_library \<Rightarrow> u8 list \<Rightarrow> 'm pb_object option" where
  "unpack_object lib = pbdnsmessage__unpack (message_unpack lib)"

definition unpack_contents :: "('m, 'h) pb_library \<Rightarrow> u8 list \<Rightarrow> 'm option" where
  "unpack_contents lib bs = map_option pb_contents (unpack_object lib bs)"

lemma parse_gives_back:
  assumes "pb_laws lib"
  shows "protobuf_parse nd (unpack_object lib) (parse_unpacked nd debug lib log) buf (h, s) =
    rbind (protobuf_parse nd (unpack_contents lib) log buf s) (\<lambda>(st, s'). Inr (st, h, s'))"
proof (cases "unpack_object lib buf")
  case None
  then show ?thesis by (cases nd) (simp_all add: protobuf_parse_def unpack_contents_def)
next
  case (Some m)
  then have "base_descriptor m = pbdnsmessage__descriptor"
    using assms by (auto simp: pb_laws_def unpack_object_def pbdnsmessage__unpack_def)
  then show ?thesis
    using Some assms
    by (simp add: protobuf_parse_def unpack_contents_def parse_unpacked_def pbdnsmessage__get_packed_size_def
        pbdnsmessage__free_unpacked_def assert_descriptor_def pb_laws_def rbind_assoc)
qed

lemma extract_loop_gives_back:
  assumes "pb_laws lib"
  shows "protobuf_extract_loop nd (unpack_object lib) (parse_unpacked nd debug lib log) buf blen (h, s) =
    rbind (protobuf_extract_loop nd (unpack_contents lib) log buf blen s) (\<lambda>r. Inr (with_heap h r))"
proof (induction blen arbitrary: buf s rule: less_induct)
  case (less blen)
  let ?plen = "unat (ntohs (load16 buf))"
  show ?case
  proof (cases "?plen + 2 \<le> blen")
    case True
    then have IH: "protobuf_extract_loop nd (unpack_object lib) (parse_unpacked nd debug lib log) b (blen - Suc (Suc ?plen)) (h, s') =
        rbind (protobuf_extract_loop nd (unpack_contents lib) log b (blen - Suc (Suc ?plen)) s') (\<lambda>r. Inr (with_heap h r))" for b s'
      using less by simp
    show ?thesis
      by (subst (1 2) protobuf_extract_loop.simps)
        (use True in \<open>cases "protobuf_parse nd (unpack_contents lib) log (take ?plen (drop 2 buf)) s";
          auto simp: parse_gives_back [OF assms] IH Let_def\<close>)
  next
    case False
    then show ?thesis by (simp add: protobuf_extract_loop.simps Let_def)
  qed
qed

lemma extract_gives_back:
  assumes "pb_laws lib"
  shows "protobuf_extract nd (unpack_object lib) (parse_unpacked nd debug lib log) buf blen (h, s) =
    rbind (protobuf_extract nd (unpack_contents lib) log buf blen s) (\<lambda>r. Inr (with_heap h r))"
  by (simp add: protobuf_extract_def extract_loop_gives_back [OF assms])

text \<open>
  C6. A connection gives back every message: with the library's functions as \<^verbatim>\<open>protobuf-c.h\<close>
  documents them, a connection thread works as it would on the bare contents of the messages, in a
  debug build and in any other; whatever arrives, no check of a descriptor fails, and the heap is at
  every return to \<^verbatim>\<open>read\<close> and at the end what it was at the beginning.
\<close>

theorem connection_gives_back:
  assumes "pb_laws lib"
  shows "socket_thread_loop nd (unpack_object lib) (parse_unpacked nd debug lib log) buf bsize evs (h, s) =
    rbind (socket_thread_loop nd (unpack_contents lib) log buf bsize evs s) (\<lambda>r. Inr (with_heap h r))"
proof (induction nd "unpack_contents lib" log buf bsize evs s rule: socket_thread_loop.induct)
  case (1 nd log buf bsize evs s)
  show ?case
  proof (cases "\<exists>bs evs'. evs = Sock_Data bs # evs' \<and> bsize \<noteq> MAX_BUFFER_SIZE \<and> take (MAX_BUFFER_SIZE - bsize) bs \<noteq> []")
    case False
    then show ?thesis
      by (subst (1 2) socket_thread_loop.simps) (auto simp: Let_def split: list.splits sock_event.splits)
  next
    case True
    then obtain bs evs' where e: "evs = Sock_Data bs # evs'" "bsize \<noteq> MAX_BUFFER_SIZE" "take (MAX_BUFFER_SIZE - bsize) bs \<noteq> []"
      by blast
    note IH = 1(1) [OF e(2,1) refl refl refl refl e(3) refl]
    let ?x = "protobuf_extract nd (unpack_contents lib) log (store_at buf bsize (take (MAX_BUFFER_SIZE - bsize) bs))
        (bsize + length (take (MAX_BUFFER_SIZE - bsize) bs)) s"
    show ?thesis
    proof (cases ?x)
      case (Inl err)
      then show ?thesis
        using e by (subst (1 2) socket_thread_loop.simps) (simp add: extract_gives_back [OF assms] Let_def)
    next
      case (Inr r)
      obtain st b n s' where r: "r = (st, b, n, s')" by (cases r)
      show ?thesis
        using e Inr r IH
        by (subst (1 2) socket_thread_loop.simps)
          (cases st; cases nd; simp add: extract_gives_back [OF assms] Let_def)
    qed
  qed
qed

text \<open>A library that takes a cell for every message that is not empty.\<close>

definition counting_library :: "(u8 list, nat) pb_library" where
  "counting_library =
     \<lparr>message_unpack = (\<lambda>d bs. if bs = [] then None else Some \<lparr>base_descriptor = d, pb_contents = bs\<rparr>),
      taken = (\<lambda>m h. Suc h), message_free = (\<lambda>m h. h - 1), message_size = (\<lambda>m. 0)\<rparr>"

lemma counting_laws: "pb_laws counting_library"
  by (auto simp: pb_laws_def counting_library_def split: if_splits)

theorem connection_gives_back_witness:
  "rbind (socket_thread_loop True (unpack_object counting_library) (parse_unpacked True True counting_library (\<lambda>m s. Inr (s @ [m])))
      (replicate 8192 0) 0 [Sock_Data [0, 1, 65]] (7, [])) (\<lambda>(st, b, n, hs). Inr (st, hs)) = Inr (Waiting, 7, [[65]])"
  unfolding connection_gives_back [OF counting_laws]
  by (simp add: socket_thread_loop.simps protobuf_extract_def protobuf_extract_loop.simps protobuf_parse_def unpack_contents_def
      unpack_object_def pbdnsmessage__unpack_def counting_library_def unat_ntohs_load16 hdr_def MAX_BUFFER_SIZE_def store_at_def Let_def)

end
