(* ===== verification/Ini_Options.thy ===== *)
theory Ini_Options
  imports Ini
begin

text \<open>
  The compile-time options of \<^verbatim>\<open>src/inih/ini.h\<close>, which \<^verbatim>\<open>src/inih/ini.c\<close> tests with \<^verbatim>\<open>#if\<close>: the
  parser for every choice of them. The theory \<open>Ini\<close> is the parser for the choice the header makes.
\<close>

section \<open>The options\<close>

record ini_options =
  allow_multiline :: bool
  allow_bom :: bool
  allow_inline_comments :: bool
  inline_comment_prefixes :: string
  use_stack :: bool
  stop_on_first_error :: bool

definition ini_header_options :: ini_options where
  "ini_header_options =
     \<lparr>allow_multiline = True, allow_bom = True, allow_inline_comments = True, inline_comment_prefixes = '';'',
      use_stack = True, stop_on_first_error = False\<rparr>"

section \<open>The parser\<close>

text \<open>The loop of \<^verbatim>\<open>find_chars_or_comment\<close>; without inline comments it looks at \<open>chars\<close> only.\<close>

fun opt_find_from :: "ini_options \<Rightarrow> string option \<Rightarrow> bool \<Rightarrow> string \<Rightarrow> string" where
  "opt_find_from opts chars was_space [] = []"
| "opt_find_from opts chars was_space (c # s) =
     (if (case chars of None \<Rightarrow> False | Some cs \<Rightarrow> c \<in> set cs) \<or>
         (allow_inline_comments opts \<and> was_space \<and> c \<in> set (inline_comment_prefixes opts))
      then c # s
      else opt_find_from opts chars (isspace c) s)"

definition opt_line_start :: "ini_options \<Rightarrow> nat \<Rightarrow> string \<Rightarrow> string \<times> bool" where
  "opt_line_start opts lineno line =
     (let bom = (allow_bom opts \<and> lineno = 1 \<and> has_bom line);
          stripped = rstrip (if bom then drop 3 line else line);
          start = lskip stripped
      in (start, bom \<or> length start < length stripped))"

definition opt_parse_section :: "ini_options \<Rightarrow> string \<Rightarrow> string option" where
  "opt_parse_section opts start =
     (let e = opt_find_from opts (Some '']'') False (tl start)
      in if e \<noteq> [] \<and> hd e = CHR '']'' then Some (strncpy0 (before (tl start) e) MAX_SECTION) else None)"

definition opt_parse_pair :: "ini_options \<Rightarrow> string \<Rightarrow> (string \<times> string) option" where
  "opt_parse_pair opts start =
     (let e = opt_find_from opts (Some ''=:'') False start
      in if e \<noteq> [] \<and> (hd e = CHR ''='' \<or> hd e = CHR '':'')
         then (let name = rstrip (before start e);
                   raw = tl e;
                   cut = (if allow_inline_comments opts then before raw (opt_find_from opts None False raw) else raw);
                   value = rstrip (lskip cut)
               in Some (name, value))
         else None)"

definition opt_ini_line :: "ini_options \<Rightarrow> 'u ini_handler \<Rightarrow> string \<Rightarrow> 'u ini_state \<Rightarrow> 'u ini_state" where
  "opt_ini_line opts handler line st0 =
     (let st = st0\<lparr>ini_lineno := Suc (ini_lineno st0)\<rparr>
      in case opt_line_start opts (ini_lineno st) line of (start, moved) \<Rightarrow>
         if start \<noteq> [] \<and> (hd start = CHR '';'' \<or> hd start = CHR ''#'') then st
         else if allow_multiline opts \<and> ini_prev_name st \<noteq> [] \<and> start \<noteq> [] \<and> moved
         then call_handler handler (ini_prev_name st) start st
         else if start \<noteq> [] \<and> hd start = CHR ''[''
         then (case opt_parse_section opts start of
                 Some sec \<Rightarrow> st\<lparr>ini_section := sec, ini_prev_name := []\<rparr>
               | None \<Rightarrow> note_error st)
         else if start \<noteq> []
         then (case opt_parse_pair opts start of
                 Some (name, value) \<Rightarrow>
                   call_handler handler name value (st\<lparr>ini_prev_name := strncpy0 name MAX_NAME\<rparr>)
               | None \<Rightarrow> note_error st)
         else st)"

partial_function (option) opt_stream_loop ::
  "ini_options \<Rightarrow> (nat \<Rightarrow> string \<Rightarrow> (string \<times> string) option) \<Rightarrow> string \<Rightarrow> 'u ini_handler \<Rightarrow> 'u ini_state \<Rightarrow> 'u ini_state option" where
  "opt_stream_loop opts reader stream handler st =
     (case reader INI_MAX_LINE stream of
        None \<Rightarrow> Some st
      | Some (line, stream') \<Rightarrow>
          let st' = opt_ini_line opts handler line st
          in if stop_on_first_error opts \<and> ini_error st' \<noteq> 0 then Some st'
             else opt_stream_loop opts reader stream' handler st')"

text \<open>The line buffer is on the stack or comes from \<^verbatim>\<open>malloc\<close>, which fails when there is no memory.\<close>

definition opt_parse_stream ::
  "ini_options \<Rightarrow> bool \<Rightarrow> (nat \<Rightarrow> string \<Rightarrow> (string \<times> string) option) \<Rightarrow> string \<Rightarrow> 'u ini_handler \<Rightarrow> 'u \<Rightarrow> (int \<times> 'u) option" where
  "opt_parse_stream opts memory reader stream handler user =
     (if \<not> use_stack opts \<and> \<not> memory then Some (-2, user)
      else map_option ini_result (opt_stream_loop opts reader stream handler (ini_init user)))"

section \<open>The header's choice\<close>

lemma header_options [simp]:
  "allow_multiline ini_header_options" "allow_bom ini_header_options" "allow_inline_comments ini_header_options"
  "inline_comment_prefixes ini_header_options = '';''" "use_stack ini_header_options" "\<not> stop_on_first_error ini_header_options"
  by (simp_all add: ini_header_options_def)

lemma find_header: "opt_find_from ini_header_options chars w s = find_chars_from chars w s"
  by (induction chars w s rule: find_chars_from.induct) simp_all

text \<open>A line depends on the options through its helpers only.\<close>

lemma opt_ini_line_cong:
  assumes "opt_line_start o1 = opt_line_start o2" "opt_parse_section o1 = opt_parse_section o2"
    "opt_parse_pair o1 = opt_parse_pair o2" "allow_multiline o1 = allow_multiline o2"
  shows "opt_ini_line o1 h = opt_ini_line o2 h"
  unfolding opt_ini_line_def [abs_def] assms by (rule refl)

lemma line_header: "opt_ini_line ini_header_options h = ini_line h"
proof -
  have "opt_line_start ini_header_options = line_start" "opt_parse_section ini_header_options = parse_section"
    "opt_parse_pair ini_header_options = parse_pair" "allow_multiline ini_header_options = True"
    by (auto simp: opt_line_start_def line_start_def opt_parse_section_def parse_section_def opt_parse_pair_def parse_pair_def
        find_chars_or_comment_def find_header Let_def fun_eq_iff)
  then show ?thesis unfolding opt_ini_line_def [abs_def] ini_line_def [abs_def] by (simp only: simp_thms)
qed

section \<open>Lines until an error\<close>

text \<open>An error once noted stays.\<close>

lemma opt_ini_line_error: "ini_error st \<noteq> 0 \<Longrightarrow> ini_error (opt_ini_line opts h line st) = ini_error st"
  by (auto simp: opt_ini_line_def call_handler_def note_error_def Let_def split: prod.splits option.splits)

fun until_error :: "('u ini_state \<Rightarrow> string \<Rightarrow> 'u ini_state) \<Rightarrow> string list \<Rightarrow> 'u ini_state \<Rightarrow> 'u ini_state" where
  "until_error f [] st = st"
| "until_error f (l # ls) st = (let st' = f st l in if ini_error st' \<noteq> 0 then st' else until_error f ls st')"

lemma opt_stream_lines:
  "opt_stream_loop opts fgets xs h st =
     Some (if stop_on_first_error opts then until_error (\<lambda>st l. opt_ini_line opts h l st) (split_lines xs) st
           else fold (opt_ini_line opts h) (split_lines xs) st)"
proof (induction xs arbitrary: st rule: split_lines.induct)
  case (1 xs)
  show ?case
  proof (cases "fgets INI_MAX_LINE xs")
    case None
    then show ?thesis by (simp add: opt_stream_loop.simps [of _ _ xs] split_lines.simps [of xs])
  next
    case (Some a)
    then obtain l r where a: "fgets INI_MAX_LINE xs = Some (l, r)" by (cases a) auto
    then show ?thesis
      using "1.IH" [OF a refl] by (simp add: opt_stream_loop.simps [of _ _ xs] split_lines.simps [of xs] Let_def)
  qed
qed

lemma fold_error: "ini_error st \<noteq> 0 \<Longrightarrow> ini_error (fold (opt_ini_line opts h) ls st) = ini_error st"
  by (induction ls arbitrary: st) (simp_all add: opt_ini_line_error)

lemma until_error_same:
  "ini_error (until_error (\<lambda>st l. opt_ini_line opts h l st) ls st) = ini_error (fold (opt_ini_line opts h) ls st)"
  "ini_error (fold (opt_ini_line opts h) ls st) = 0 \<Longrightarrow>
     until_error (\<lambda>st l. opt_ini_line opts h l st) ls st = fold (opt_ini_line opts h) ls st"
proof (induction ls arbitrary: st)
  case (Cons l ls)
  {
    case 1
    then show ?case using Cons.IH(1) fold_error [of "opt_ini_line opts h l st" opts h ls] by (auto simp: Let_def)
  next
    case 2
    then show ?case using Cons.IH(2) fold_error [of "opt_ini_line opts h l st" opts h ls] by (auto simp: Let_def)
  }
qed auto

text \<open>Where the buffer is and when to stop do not matter for a line.\<close>

lemma find_unaffected: "opt_find_from (opts\<lparr>use_stack := a, stop_on_first_error := b\<rparr>) chars w s = opt_find_from opts chars w s"
  by (induction opts chars w s rule: opt_find_from.induct) simp_all

lemma line_unaffected: "opt_ini_line (opts\<lparr>use_stack := a, stop_on_first_error := b\<rparr>) h = opt_ini_line opts h"
  by (rule opt_ini_line_cong)
    (simp_all add: fun_eq_iff opt_line_start_def opt_parse_section_def opt_parse_pair_def find_unaffected Let_def)


text \<open>A handler that keeps what it is told, and a small file.\<close>

definition recording :: "(string \<times> string \<times> string) list ini_handler" where
  "recording u s n v l = (True, u @ [(s, n, v)])"

definition small_file :: string where
  "small_file = ''[s]'' @ [newline] @ ''a = 1''"

lemma small_file_recorded:
  "opt_parse_stream ini_header_options False fgets small_file recording [] = Some (0, [(''s'', ''a'', ''1'')])"
proof -
  have "split_lines small_file = [''[s]'' @ [newline], ''a = 1'']"
    by (simp add: small_file_def split_lines.simps fgets_def INI_MAX_LINE_def eval_nat_numeral c_string_def)
  then show ?thesis
    by (simp add: opt_parse_stream_def opt_stream_lines line_header ini_line_def line_start_def has_bom_def rstrip_eq lskip_eq isspace_def
        parse_section_def parse_pair_def find_chars_or_comment_def before_def strncpy0_def call_handler_def recording_def
        MAX_SECTION_def MAX_NAME_def ini_init_def ini_result_def Let_def)
qed


end
