(* ===== verification/Spec2Isabelle.thy ===== *)
theory Spec2Isabelle
  imports Exit_Status Interleaving Logfile_Threads Connections Shipped_Config Pb_Objects Ini_Options
begin

text \<open>
  pdns-logger is a daemon that receives the protobuf messages PowerDNS sends over TCP and logs the
  DNS answers they report to a file, to syslog and to a SQLite database. This development models the
  daemon's own C code and proves what it does. The state of each C file is a record, each function
  one definition of the same name (functions of the same name in several files carry the name of
  their file), and the order of the definitions is that of the code.

  \<^bold>\<open>Parts of the program and how they work together.\<close> \<^verbatim>\<open>main\<close> reads the command line and the
  configuration file, starts the three logging engines, forks unless told otherwise, and runs the accept
  loop. Each connection has a thread that cuts length-prefixed messages out of a buffer, has them
  decoded by libprotobuf-c and hands each to the engines in turn. The file and the syslog engine
  format text lines in a buffer of 1024 bytes. The SQLite engine builds INSERT statements and puts them on a
  queue, from which a background thread takes and executes them. A hangup signal rotates every engine, a
  termination signal ends the accept loop, after which the engines are stopped.

  \<^bold>\<open>Theories.\<close>
  \<^item> \<^verbatim>\<open>Prelude\<close>: widths of integers, the ways a C program can stop (\<open>stop\<close>), the result type \<open>'a res\<close> with its
    sequencing \<open>rbind\<close> and \<open>rfold\<close>, and \<^verbatim>\<open>assert(0)\<close> in builds with and without assertions.
  \<^item> \<^verbatim>\<open>C_Library\<close>: what the sources use of the C library: string comparison, \<^verbatim>\<open>atoi\<close>, decimal and
    hexadecimal output, \<^verbatim>\<open>snprintf\<close>, \<^verbatim>\<open>strncat\<close>, \<^verbatim>\<open>inet_ntop\<close>.
  \<^item> \<^verbatim>\<open>Dns_Names\<close> (\<^verbatim>\<open>src/pdns-logger-dns.c\<close>, \<^verbatim>\<open>.h\<close>): the tables of names and the three lookups by position,
    through the locale \<open>positional_table\<close>, compared with the enumerations of the header.
  \<^item> \<^verbatim>\<open>Fifo\<close> (\<^verbatim>\<open>src/pdns-logger-queue.c\<close>): the queue with its cells in a heap, its recursive mutex and its
    condition. The locales \<open>mailbox\<close>, \<open>dropping_mailbox\<close> and \<open>aborting_mailbox\<close> say what its clients can rely on
    in the two kinds of builds; the queue is shown to be a slot for one item.
  \<^item> \<^verbatim>\<open>Pb_Message\<close> (\<^verbatim>\<open>src/dnsmessage.pb-c.h\<close>): the message structures and their initial values, and reading a
    binary field as bytes or as a C string.
  \<^item> \<^verbatim>\<open>Pb_Descriptors\<close> (\<^verbatim>\<open>src/dnsmessage.pb-c.c\<close>): the generated descriptor tables, compared with the schema
    \<^verbatim>\<open>src/dnsmessage.proto\<close> through the locale \<open>numbered_table\<close>. \<^verbatim>\<open>Pb_Objects\<close>: the generated functions over the library's, the
    tables against the structures they describe, and that a connection frees what it has unpacked.
  \<^item> \<^verbatim>\<open>Protobuf_Stream\<close> (\<^verbatim>\<open>src/pdns-logger-protobuf.c\<close>, first half): cutting messages out of the buffer, and the
    reading loop of a connection thread. The specification is by frames, without a buffer.
  \<^item> \<^verbatim>\<open>Connections\<close>: several connection threads taking turns, each with its own buffer, over shared loggers.
  \<^item> \<^verbatim>\<open>Ini\<close> (\<^verbatim>\<open>src/inih/ini.c\<close>): the INI reader, line by line, with the locales \<open>accepting_handler\<close> and \<open>section_handler\<close> for
    the callbacks of its users; round trip of printed documents. \<^verbatim>\<open>Ini_Options\<close>: the reader for every choice of the
    options of \<^verbatim>\<open>src/inih/ini.h\<close>.
  \<^item> \<^verbatim>\<open>Config\<close> (\<^verbatim>\<open>src/pdns-logger-ini.c\<close>): the global settings. \<^verbatim>\<open>Shipped_Config\<close>: the file
    \<^verbatim>\<open>config/pdns-logger.ini.in\<close> as all four readers understand it.
  \<^item> \<^verbatim>\<open>Text_Line\<close>: the line buffer of the two text engines and, as the locale \<open>text_backend\<close>, everything that is true of
    both; the lines a message should give. \<^verbatim>\<open>Logfile\<close> (\<^verbatim>\<open>src/pdns-logger-file.c\<close>) and \<^verbatim>\<open>Syslog\<close>
    (\<^verbatim>\<open>src/pdns-logger-syslog.c\<close>) interpret it. The file system of \<^verbatim>\<open>Logfile\<close> has names, inodes and buffered streams, so that
    renaming an open log file means what it means on Unix. \<^verbatim>\<open>Logfile_Threads\<close>: writing a line, rotation and shutdown of the log file cut
    into their statements, for any number of threads and without a lock, as the code has it; where the lines go and what can go wrong.
  \<^item> \<^verbatim>\<open>Sqlite\<close> (\<^verbatim>\<open>src/pdns-logger-sqlite.c\<close>): statements, the mutual recursion of \<^verbatim>\<open>db_exec\<close> and \<^verbatim>\<open>db_flush\<close>,
    the background thread step by step, and transactions under the documented laws of SQLite.
  \<^item> \<^verbatim>\<open>Network\<close> (\<^verbatim>\<open>src/pdns-logger-protobuf.c\<close>, second half): the listening socket, the accept loop, and the
    thread function, as traces of system calls.
  \<^item> \<^verbatim>\<open>Daemon\<close> (\<^verbatim>\<open>src/pdns-logger.c\<close>): the table of engines, signals, the command line, the fork, \<^verbatim>\<open>main\<close>.
  \<^item> \<^verbatim>\<open>Safety\<close>: the states a running daemon can reach, as an inductive predicate over messages, rotations and
    background steps in any order; their invariant; and what can still stop the daemon.
  \<^item> \<^verbatim>\<open>Threads\<close>: the locale \<open>threaded\<close>, what a call cut into steps owes to the same call as one step; \<^verbatim>\<open>Interleaving\<close> and
    \<^verbatim>\<open>Logfile_Threads\<close> interpret it.
  \<^item> \<^verbatim>\<open>Interleaving\<close>: the SQLite engine's background thread, rotation and shutdown cut into the pieces between which
    other threads can run, as a step relation; what the queue's lock protects, what it does not, and that the single steps
    of the other theories are uninterrupted runs of these; shutdown comes to its end.
  \<^item> \<^verbatim>\<open>Exit_Status\<close>: how a run of \<^verbatim>\<open>main\<close> ends, from the command line to the shutdown.
  \<^item> This theory: the path of the messages from the bytes of all connections to the lines in the log.

  \<^bold>\<open>Errors.\<close> A call that returns normally is \<open>Inr\<close>; \<open>Inl e\<close> says how the program stops or leaves the C standard: a failed
  assertion, a write or read beyond a buffer, use of a closed stream or freed cell, an uninitialised or NULL
  pointer, a join of no thread, or waiting for ever. Builds with and without assertions are both modelled (a flag
  \<open>nd\<close>, for \<^verbatim>\<open>NDEBUG\<close>).

  \<^bold>\<open>Bounds and fuel.\<close> \<open>db_exec\<close> and \<open>db_flush\<close> bound the depth of their calls by \<open>DEPTH\<close>, two levels, and more give the
  same result, because the counter restarts before the nested calls. \<open>ini_parse_stream\<close> is a partial function, shown to return
  on every input. All other loops are recursions with a termination proof. The sizes are the program's: 8192 bytes
  for a connection's buffer, 1024 for a line, 200 for a line of the configuration, 50 for section and name.

  \<^bold>\<open>Parameters.\<close> libprotobuf-c is a function from the root descriptor and the bytes to a message or nothing; in \<^verbatim>\<open>Pb_Objects\<close> a record
  of the functions the generated code calls, with what \<^verbatim>\<open>protobuf-c.h\<close> documents as \<open>pb_laws\<close>. SQLite is a record of the
  functions the code calls; \<open>sqlite_laws\<close> states what its documentation promises on transactions, and a small
  instance (\<open>mini_sqlite\<close>) satisfies it. Answers of the kernel, of memory allocation and of stdio buffering are inputs.

  \<^bold>\<open>Not modelled.\<close> The decoding and encoding of protobuf, which is the library's. Messages printed to the terminal, except where they decide
  a result. Preemption inside a step: outside \<^verbatim>\<open>Interleaving\<close> and \<^verbatim>\<open>Logfile_Threads\<close> an engine call, a rotation and a background round are atomic,
  and there the calls and tests they consist of. So data races inside one statement, and what a signal handler may do to a library call it interrupts,
  are outside the model; the queue's locks are modelled and so is a thread blocking on them. The syslog engine has no state that a
  rotation changes. Overflow of the statement counter, which takes more than two billion failing statements in a row. Storage of strings that are never
  freed. INI handlers without line numbers and other lengths of a configuration line, which no build selects. Build files and packaging.
\<close>

section \<open>From the wire to the log\<close>

lemma handle_frames_log:
  assumes "map unpack ps = map Some ms"
  shows "rfold (handle_frame nd unpack log) ps s = rfold log ms s"
  using assms
proof (induction ps arbitrary: ms s)
  case (Cons p ps)
  then obtain m ms' where m: "ms = m # ms'" "unpack p = Some m" "map unpack ps = map Some ms'"
    by (cases ms) auto
  have "handle_frame nd unpack log p = log m"
    by (rule ext) (simp add: handle_frame_def protobuf_parse_def m(2) rbind_assoc)
  moreover have "rfold (handle_frame nd unpack log) ps = rfold log ms'" by (rule ext) (rule Cons.IH [OF m(3)])
  ultimately show ?case by (simp add: m(1))
qed simp



end
